theory Spec2Isabelle
  imports Main "HOL-Library.Word" "HOL-Library.Signed_Division"
begin

section \<open>Data model of Week4-6-ShapeComplete.cpp\<close>

text \<open>
  The embedding follows the frame-resource core of \<^verbatim>\<open>ShapesApp\<close>: the render items built
  by \<^verbatim>\<open>BuildRenderItems\<close>, the three frame resources with their upload buffers and fence
  values, the descriptor heap filled by \<^verbatim>\<open>BuildConstantBufferViews\<close>, and the per-frame
  pair \<^verbatim>\<open>Update\<close> / \<^verbatim>\<open>Draw\<close>.

  Machine integers: \<^verbatim>\<open>UINT\<close> is a 32-bit word and \<^verbatim>\<open>UINT64\<close> a 64-bit word, both with
  wrap-around. The two \<^verbatim>\<open>int\<close> variables of the core, \<^verbatim>\<open>NumFramesDirty\<close> and
  \<^verbatim>\<open>mCurrFrameResourceIndex\<close>, are only ever decremented while positive, respectively
  reduced modulo 3 after adding 1, so they are kept as mathematical integers; \<^verbatim>\<open>%\<close> is the
  truncating remainder \<open>smod\<close>.

  Floating point is outside the embedding. A matrix is sixteen entries of an arbitrary
  type; \<^verbatim>\<open>XMLoadFloat4x4\<close>, \<^verbatim>\<open>XMStoreFloat4x4\<close> and \<^verbatim>\<open>XMMatrixTranspose\<close> only move
  entries and are exact on any entry type.
\<close>

type_synonym UINT = "32 word"
type_synonym UINT64 = "64 word"

definition gNumFrameResources :: int where
  "gNumFrameResources = 3"

datatype 'a XMFLOAT4X4 =
  XMFLOAT4X4 'a 'a 'a 'a  'a 'a 'a 'a  'a 'a 'a 'a  'a 'a 'a 'a

definition Identity4x4 :: "'a::{zero,one} XMFLOAT4X4" where
  "Identity4x4 = XMFLOAT4X4 1 0 0 0  0 1 0 0  0 0 1 0  0 0 0 1"

fun XMMatrixTranspose :: "'a XMFLOAT4X4 \<Rightarrow> 'a XMFLOAT4X4" where
  "XMMatrixTranspose (XMFLOAT4X4 a11 a12 a13 a14  a21 a22 a23 a24  a31 a32 a33 a34  a41 a42 a43 a44) =
     XMFLOAT4X4 a11 a21 a31 a41  a12 a22 a32 a42  a13 a23 a33 a43  a14 a24 a34 a44"

text \<open>
  \<^verbatim>\<open>struct RenderItem\<close> with its in-class initialisers. \<^verbatim>\<open>Geo\<close> is the name of the mesh
  the pointer refers to (\<open>None\<close> for \<^verbatim>\<open>nullptr\<close>); \<open>DrawArgs\<close> is the key of the submesh whose
  \<^verbatim>\<open>IndexCount\<close>, \<^verbatim>\<open>StartIndexLocation\<close> and \<^verbatim>\<open>BaseVertexLocation\<close> the item copies.
\<close>

record 'a RenderItem =
  World :: "'a XMFLOAT4X4"
  NumFramesDirty :: int
  ObjCBIndex :: UINT
  Geo :: "string option"
  DrawArgs :: string

definition RenderItem :: "'a::{zero,one} RenderItem" where
  "RenderItem = \<lparr> World = Identity4x4, NumFramesDirty = gNumFrameResources,
     ObjCBIndex = - 1, Geo = None, DrawArgs = [] \<rparr>"

datatype error =
    CapacityViolation
  | NullFrameResource
  | FrameResourceOutOfRange
  | DescriptorOutOfRange
  | DanglingRenderItem
  | WaitNeverResolves

subsection \<open>Upload buffers and frame resources\<close>

text \<open>
  \<^verbatim>\<open>UploadBuffer.h\<close> and \<^verbatim>\<open>FrameResource.h\<close> are included by the source file but are not
  part of it. An upload buffer is the list of its elements, \<open>None\<close> for an element never
  written; its length is its capacity.
\<close>

type_synonym 'r UploadBuffer = "'r option list"

definition UploadBuffer :: "UINT \<Rightarrow> 'r UploadBuffer" where
  \<comment> \<open>Modelled from the spec: the constructor of the absent \<^verbatim>\<open>UploadBuffer\<close> template; the
      capacity is fixed at construction.\<close>
  "UploadBuffer elementCount = replicate (unat elementCount) None"

definition CopyData :: "UINT \<Rightarrow> 'r \<Rightarrow> 'r UploadBuffer \<Rightarrow> error + 'r UploadBuffer" where
  \<comment> \<open>Modelled from the spec: \<^verbatim>\<open>CopyData\<close> of the absent \<^verbatim>\<open>UploadBuffer\<close> template, the
      spec's \<^verbatim>\<open>write(index, record)\<close>: the index must be below the capacity, an index out of
      range fails fast, and writing one element leaves the others alone.\<close>
  "CopyData elementIndex data buf =
     (if unat elementIndex < length buf then Inr (buf[unat elementIndex := Some data])
      else Inl CapacityViolation)"

datatype 'a ObjectConstants = ObjectConstants "'a XMFLOAT4X4"

record ('a, 'p) FrameResource =
  PassCB :: "'p UploadBuffer"
  ObjectCB :: "'a ObjectConstants UploadBuffer"
  Fence :: UINT64

definition FrameResource :: "UINT \<Rightarrow> UINT \<Rightarrow> ('a, 'p) FrameResource" where
  \<comment> \<open>Modelled from the spec: the constructor of the absent \<^verbatim>\<open>FrameResource\<close> struct, called
      as \<^verbatim>\<open>FrameResource(device, passCount, objectCount)\<close>: a pass arena, an object arena of
      one record per render item, and a completion marker that is 0 until the first
      submission.\<close>
  "FrameResource passCount objectCount =
     \<lparr> PassCB = UploadBuffer passCount, ObjectCB = UploadBuffer objectCount, Fence = 0 \<rparr>"

subsection \<open>The descriptor heap\<close>

text \<open>
  A constant buffer view names the buffer it looks at and the element inside it:
  \<^verbatim>\<open>cbAddress = objectCB->GetGPUVirtualAddress() + i * objCBByteSize\<close> is kept as the frame
  resource's index, the kind of buffer and \<open>i\<close>.
\<close>

datatype RecordKind = ObjectRecord | PassRecord

datatype CBV = CBV nat RecordKind UINT

datatype Command =
    SetGraphicsRootDescriptorTable nat int
  | DrawIndexedInstanced string

subsection \<open>The application state\<close>

text \<open>
  The members of \<^verbatim>\<open>ShapesApp\<close> the core reads or writes. \<^verbatim>\<open>mCurrFrameResource\<close> and the
  elements of \<^verbatim>\<open>mOpaqueRitems\<close> are raw pointers into \<^verbatim>\<open>mFrameResources\<close> and
  \<^verbatim>\<open>mAllRitems\<close>: a pointer is the position of its target, \<open>None\<close> is \<^verbatim>\<open>nullptr\<close>.
  \<^verbatim>\<open>mCurrentFence\<close> and \<^verbatim>\<open>mCommandList\<close> are inherited from \<^verbatim>\<open>D3DApp\<close>; fence values are
  the \<^verbatim>\<open>UINT64\<close> of the Direct3D 12 fence interface, and of a command list only the
  descriptor bindings and the draw calls are kept.
\<close>

record ('a, 'p) ShapesApp =
  mFrameResources :: "('a, 'p) FrameResource list"
  mCurrFrameResource :: "nat option"
  mCurrFrameResourceIndex :: int
  mCbvHeap :: "CBV option list"
  mAllRitems :: "'a RenderItem list"
  mOpaqueRitems :: "nat list"
  mMainPassCB :: 'p
  mPassCbvOffset :: UINT
  mCurrentFence :: UINT64
  mCommandList :: "Command list"

definition ShapesApp :: "'p \<Rightarrow> UINT64 \<Rightarrow> ('a, 'p) ShapesApp" where
  \<comment> \<open>The members at their in-class initialisers. Two values come from outside the source
      file and are parameters: the default \<^verbatim>\<open>PassConstants\<close>, and the value of
      \<^verbatim>\<open>mCurrentFence\<close> when the frame loop starts, which the base class \<^verbatim>\<open>D3DApp\<close> and its
      \<^verbatim>\<open>FlushCommandQueue\<close> determine.\<close>
  "ShapesApp pass0 fence0 =
     \<lparr> mFrameResources = [], mCurrFrameResource = None, mCurrFrameResourceIndex = 0,
       mCbvHeap = [], mAllRitems = [], mOpaqueRitems = [], mMainPassCB = pass0,
       mPassCbvOffset = 0, mCurrentFence = fence0, mCommandList = [] \<rparr>"

section \<open>Scene build\<close>

text \<open>
  \<^verbatim>\<open>BuildRenderItems\<close> is 49 copies of one block: make a default item, store its world
  matrix, take \<^verbatim>\<open>objCBIndex++\<close> as its \<^verbatim>\<open>ObjCBIndex\<close>, point it at the submesh, and
  \<^verbatim>\<open>push_back\<close> it. Inside each of the ten \<^verbatim>\<open>for\<close> loops two items are made and numbered
  before either is pushed. The state of the function is the local counter and \<^verbatim>\<open>mAllRitems\<close>.

  The world matrices are products of \<^verbatim>\<open>XMMatrixTranslation\<close>, \<^verbatim>\<open>XMMatrixScaling\<close> and
  \<^verbatim>\<open>XMMatrixRotationY\<close> in floating point; \<open>W l i\<close> stands for the matrix stored by the
  \<^verbatim>\<open>XMStoreFloat4x4\<close> at source line \<open>l\<close> in iteration \<open>i\<close> of the enclosing loop (0 outside
  a loop).
\<close>

definition addRitem ::
  "'a XMFLOAT4X4 \<Rightarrow> string \<Rightarrow> UINT \<times> 'a::{zero,one} RenderItem list \<Rightarrow> UINT \<times> 'a RenderItem list" where
  "addRitem w shape = (\<lambda>(objCBIndex, ritems).
     let ritem = RenderItem \<lparr> World := w \<rparr>;
         ritem = ritem \<lparr> ObjCBIndex := objCBIndex, Geo := Some ''shapeGeo'', DrawArgs := shape \<rparr>
     in (objCBIndex + 1, ritems @ [ritem]))"

definition addRitemPair ::
  "'a XMFLOAT4X4 \<Rightarrow> 'a XMFLOAT4X4 \<Rightarrow> string \<Rightarrow>
   UINT \<times> 'a::{zero,one} RenderItem list \<Rightarrow> UINT \<times> 'a RenderItem list" where
  "addRitemPair w1 w2 shape = (\<lambda>(objCBIndex, ritems).
     let borders = RenderItem \<lparr> World := w1 \<rparr>;
         dersbor = RenderItem \<lparr> World := w2 \<rparr>;
         borders = borders \<lparr> ObjCBIndex := objCBIndex, Geo := Some ''shapeGeo'', DrawArgs := shape \<rparr>;
         dersbor = dersbor \<lparr> ObjCBIndex := objCBIndex + 1, Geo := Some ''shapeGeo'', DrawArgs := shape \<rparr>
     in (objCBIndex + 2, (ritems @ [borders]) @ [dersbor]))"

definition forLoop :: "nat \<Rightarrow> (nat \<Rightarrow> 's \<Rightarrow> 's) \<Rightarrow> 's \<Rightarrow> 's" where
  \<comment> \<open>\<^verbatim>\<open>for (int i = 0; i < n; i++) body\<close>\<close>
  "forLoop n body = fold body [0..<n]"

definition BuildRenderItems_blocks ::
  "(nat \<Rightarrow> nat \<Rightarrow> 'a XMFLOAT4X4) \<Rightarrow>
   (UINT \<times> 'a::{zero,one} RenderItem list \<Rightarrow> UINT \<times> 'a RenderItem list) list" where
  "BuildRenderItems_blocks W =
   [ addRitem (W 820 0) ''cylinder'',
     addRitem (W 833 0) ''cylinder'',
     addRitem (W 843 0) ''cylinder'',
     addRitem (W 855 0) ''cylinder'',
     addRitem (W 868 0) ''prism'',
     addRitem (W 880 0) ''prism'',
     addRitem (W 894 0) ''box'',
     addRitem (W 906 0) ''pyramid'',
     addRitem (W 921 0) ''cone'',
     addRitem (W 933 0) ''cone'',
     addRitem (W 945 0) ''cone'',
     addRitem (W 957 0) ''cone'',
     addRitem (W 970 0) ''sphere'',
     addRitem (W 982 0) ''sphere'',
     addRitem (W 994 0) ''sphere'',
     addRitem (W 1007 0) ''sphere'',
     addRitem (W 1022 0) ''box'',
     forLoop 12 (\<lambda>i. addRitemPair (W 1041 i) (W 1042 i) ''wedge''),
     addRitem (W 1069 0) ''box'',
     forLoop 12 (\<lambda>i. addRitemPair (W 1086 i) (W 1087 i) ''wedge''),
     addRitem (W 1113 0) ''box'',
     forLoop 7 (\<lambda>i. addRitemPair (W 1131 i) (W 1132 i) ''wedge''),
     addRitem (W 1157 0) ''box'',
     addRitem (W 1169 0) ''box'',
     forLoop 3 (\<lambda>i. addRitemPair (W 1186 i) (W 1187 i) ''wedge''),
     forLoop 3 (\<lambda>i. addRitemPair (W 1217 i) (W 1218 i) ''wedge''),
     addRitem (W 1245 0) ''wedge'',
     addRitem (W 1257 0) ''wedge'',
     addRitem (W 1269 0) ''box'',
     forLoop 3 (\<lambda>i. addRitemPair (W 1286 i) (W 1287 i) ''sphere''),
     addRitem (W 1311 0) ''box'',
     addRitem (W 1323 0) ''wedge'',
     addRitem (W 1336 0) ''pyramid'',
     addRitem (W 1348 0) ''diamond'',
     forLoop 5 (\<lambda>i. addRitemPair (W 1365 i) (W 1366 i) ''wedge''),
     forLoop 5 (\<lambda>i. addRitemPair (W 1395 i) (W 1396 i) ''wedge''),
     forLoop 6 (\<lambda>i. addRitemPair (W 1425 i) (W 1426 i) ''wedge''),
     forLoop 6 (\<lambda>i. addRitemPair (W 1455 i) (W 1456 i) ''wedge''),
     addRitem Identity4x4 ''grid'' ]"

definition BuildRenderItems ::
  "(nat \<Rightarrow> nat \<Rightarrow> 'a XMFLOAT4X4) \<Rightarrow> ('a::{zero,one}, 'p) ShapesApp \<Rightarrow> ('a, 'p) ShapesApp" where
  "BuildRenderItems W app =
     (let (objCBIndex, ritems) =
            fold (\<lambda>block s. block s) (BuildRenderItems_blocks W) (0, mAllRitems app)
      in app \<lparr> mAllRitems := ritems,
               mOpaqueRitems := mOpaqueRitems app @ [0..<length ritems] \<rparr>)"

definition BuildFrameResources :: "('a, 'p) ShapesApp \<Rightarrow> ('a, 'p) ShapesApp" where
  "BuildFrameResources app =
     app \<lparr> mFrameResources := mFrameResources app @
             replicate (nat gNumFrameResources)
               (FrameResource 1 (word_of_nat (length (mAllRitems app)))) \<rparr>"

definition BuildDescriptorHeaps :: "('a, 'p) ShapesApp \<Rightarrow> ('a, 'p) ShapesApp" where
  "BuildDescriptorHeaps app =
     (let objCount = (word_of_nat (length (mOpaqueRitems app)) :: UINT);
          numDescriptors = (objCount + 1) * word_of_int gNumFrameResources
      in app \<lparr> mPassCbvOffset := objCount * word_of_int gNumFrameResources,
               mCbvHeap := replicate (unat numDescriptors) None \<rparr>)"

subsection \<open>Publishing the constant buffer views\<close>

fun foldE :: "('x \<Rightarrow> 's \<Rightarrow> error + 's) \<Rightarrow> 'x list \<Rightarrow> 's \<Rightarrow> error + 's" where
  "foldE f [] s = Inr s"
| "foldE f (x # xs) s = (case f x s of Inl e \<Rightarrow> Inl e | Inr s' \<Rightarrow> foldE f xs s')"

definition CreateConstantBufferView :: "CBV \<Rightarrow> int \<Rightarrow> CBV option list \<Rightarrow> error + CBV option list" where
  \<comment> \<open>\<^verbatim>\<open>handle.Offset(heapIndex, mCbvSrvUavDescriptorSize)\<close> followed by
      \<^verbatim>\<open>CreateConstantBufferView(&cbvDesc, handle)\<close>; a handle outside the heap is an error.\<close>
  "CreateConstantBufferView cbvDesc heapIndex heap =
     (if 0 \<le> heapIndex \<and> nat heapIndex < length heap
      then Inr (heap[nat heapIndex := Some cbvDesc])
      else Inl DescriptorOutOfRange)"

definition objHeapIndex :: "int \<Rightarrow> UINT \<Rightarrow> UINT \<Rightarrow> int" where
  \<comment> \<open>\<^verbatim>\<open>int heapIndex = frameIndex * objCount + i;\<close> with \<^verbatim>\<open>int frameIndex\<close> and \<^verbatim>\<open>UINT\<close>
      \<^verbatim>\<open>objCount\<close>, \<^verbatim>\<open>i\<close>: computed in \<^verbatim>\<open>UINT\<close>, stored in an \<^verbatim>\<open>int\<close>.\<close>
  "objHeapIndex frameIndex objCount i = sint (word_of_int frameIndex * objCount + i)"

definition passHeapIndex :: "UINT \<Rightarrow> int \<Rightarrow> int" where
  \<comment> \<open>\<^verbatim>\<open>int heapIndex = mPassCbvOffset + frameIndex;\<close>\<close>
  "passHeapIndex passCbvOffset frameIndex = sint (passCbvOffset + word_of_int frameIndex)"

definition BuildConstantBufferViews :: "('a, 'p) ShapesApp \<Rightarrow> error + ('a, 'p) ShapesApp" where
  "BuildConstantBufferViews app =
     (let objCount = (word_of_nat (length (mOpaqueRitems app)) :: UINT);
          frames = [0 .. gNumFrameResources - 1];
          objectLoop = (\<lambda>frameIndex heap.
            if nat frameIndex < length (mFrameResources app)
            then foldE (\<lambda>i. CreateConstantBufferView (CBV (nat frameIndex) ObjectRecord i)
                               (objHeapIndex frameIndex objCount i))
                   (map word_of_nat [0..<unat objCount]) heap
            else Inl FrameResourceOutOfRange);
          passLoop = (\<lambda>frameIndex heap.
            if nat frameIndex < length (mFrameResources app)
            then CreateConstantBufferView (CBV (nat frameIndex) PassRecord 0)
                   (passHeapIndex (mPassCbvOffset app) frameIndex) heap
            else Inl FrameResourceOutOfRange)
      in case foldE objectLoop frames (mCbvHeap app) of
           Inl e \<Rightarrow> Inl e
         | Inr heap \<Rightarrow>
             (case foldE passLoop frames heap of
                Inl e \<Rightarrow> Inl e
              | Inr heap' \<Rightarrow> Inr (app \<lparr> mCbvHeap := heap' \<rparr>)))"

definition Initialize ::
  "(nat \<Rightarrow> nat \<Rightarrow> 'a XMFLOAT4X4) \<Rightarrow> ('a::{zero,one}, 'p) ShapesApp \<Rightarrow> error + ('a, 'p) ShapesApp" where
  \<comment> \<open>The four build steps of \<^verbatim>\<open>ShapesApp::Initialize\<close> that the core depends on, in the
      order of the source. Root signature, shaders, geometry and pipeline states are left
      out, and so is the closing \<^verbatim>\<open>FlushCommandQueue\<close> of the base class.\<close>
  "Initialize W app =
     BuildConstantBufferViews (BuildDescriptorHeaps (BuildFrameResources (BuildRenderItems W app)))"

section \<open>The frame loop\<close>

text \<open>
  What a frame takes from outside the core: the value \<^verbatim>\<open>mFence->GetCompletedValue()\<close>
  returns at line 216, the values the fence goes through while the thread sleeps in
  \<^verbatim>\<open>WaitForSingleObject\<close> at line 220, and the pass constants that \<^verbatim>\<open>UpdateCamera\<close> and
  \<^verbatim>\<open>UpdateMainPassCB\<close> compute in floating point from the camera and the timer.
\<close>

record 'p FrameInput =
  CompletedValue :: UINT64
  FenceProgress :: "UINT64 list"
  PassConstants :: 'p

fun WaitForSingleObject :: "UINT64 \<Rightarrow> UINT64 list \<Rightarrow> UINT64 option" where
  \<comment> \<open>Lines 218 to 221: the event set by \<^verbatim>\<open>SetEventOnCompletion(fence, event)\<close> fires at the
      first value of the fence that has reached \<open>fence\<close>; the wait has no timeout, so it does
      not return when the fence never gets there.\<close>
  "WaitForSingleObject fence [] = None"
| "WaitForSingleObject fence (v # vs) =
     (if fence \<le> v then Some v else WaitForSingleObject fence vs)"

fun UpdateObjectCBs_loop ::
  "'a RenderItem list \<Rightarrow> 'a ObjectConstants UploadBuffer \<Rightarrow>
   error + ('a RenderItem list \<times> 'a ObjectConstants UploadBuffer)" where
  "UpdateObjectCBs_loop [] currObjectCB = Inr ([], currObjectCB)"
| "UpdateObjectCBs_loop (e # es) currObjectCB =
     (if NumFramesDirty e > 0 then
        (let world = World e;
             objConstants = ObjectConstants (XMMatrixTranspose world)
         in case CopyData (ObjCBIndex e) objConstants currObjectCB of
              Inl err \<Rightarrow> Inl err
            | Inr cb \<Rightarrow>
                (case UpdateObjectCBs_loop es cb of
                   Inl err \<Rightarrow> Inl err
                 | Inr (es', cb') \<Rightarrow>
                     Inr (e \<lparr> NumFramesDirty := NumFramesDirty e - 1 \<rparr> # es', cb')))
      else
        (case UpdateObjectCBs_loop es currObjectCB of
           Inl err \<Rightarrow> Inl err
         | Inr (es', cb') \<Rightarrow> Inr (e # es', cb')))"

definition UpdateObjectCBs :: "('a, 'p) ShapesApp \<Rightarrow> error + ('a, 'p) ShapesApp" where
  "UpdateObjectCBs app =
     (case mCurrFrameResource app of
        None \<Rightarrow> Inl NullFrameResource
      | Some k \<Rightarrow>
          if k < length (mFrameResources app) then
            (let fr = mFrameResources app ! k in
             case UpdateObjectCBs_loop (mAllRitems app) (ObjectCB fr) of
               Inl err \<Rightarrow> Inl err
             | Inr (ritems, cb) \<Rightarrow>
                 Inr (app \<lparr> mAllRitems := ritems,
                            mFrameResources := (mFrameResources app)[k := fr \<lparr> ObjectCB := cb \<rparr>] \<rparr>))
          else Inl FrameResourceOutOfRange)"

definition UpdateMainPassCB :: "'p \<Rightarrow> ('a, 'p) ShapesApp \<Rightarrow> error + ('a, 'p) ShapesApp" where
  "UpdateMainPassCB pass app =
     (case mCurrFrameResource app of
        None \<Rightarrow> Inl NullFrameResource
      | Some k \<Rightarrow>
          if k < length (mFrameResources app) then
            (let fr = mFrameResources app ! k in
             case CopyData 0 pass (PassCB fr) of
               Inl err \<Rightarrow> Inl err
             | Inr cb \<Rightarrow>
                 Inr (app \<lparr> mMainPassCB := pass,
                            mFrameResources := (mFrameResources app)[k := fr \<lparr> PassCB := cb \<rparr>] \<rparr>))
          else Inl FrameResourceOutOfRange)"

definition CycleFrameResource :: "('a, 'p) ShapesApp \<Rightarrow> error + ('a, 'p) ShapesApp" where
  \<comment> \<open>Lines 211 and 212.\<close>
  "CycleFrameResource app =
     (let idx = (mCurrFrameResourceIndex app + 1) smod gNumFrameResources in
      if 0 \<le> idx \<and> nat idx < length (mFrameResources app)
      then Inr (app \<lparr> mCurrFrameResourceIndex := idx, mCurrFrameResource := Some (nat idx) \<rparr>)
      else Inl FrameResourceOutOfRange)"

definition FenceNotReached :: "UINT64 \<Rightarrow> ('a, 'p) FrameResource \<Rightarrow> bool" where
  \<comment> \<open>The condition of line 216.\<close>
  "FenceNotReached completed fr \<longleftrightarrow> Fence fr \<noteq> 0 \<and> completed < Fence fr"

definition UpdateCBs :: "'p \<Rightarrow> ('a, 'p) ShapesApp \<Rightarrow> error + ('a, 'p) ShapesApp" where
  \<comment> \<open>Lines 224 and 225: \<^verbatim>\<open>UpdateObjectCBs(gt); UpdateMainPassCB(gt);\<close>\<close>
  "UpdateCBs pass app =
     (case UpdateObjectCBs app of
        Inl err \<Rightarrow> Inl err
      | Inr app' \<Rightarrow> UpdateMainPassCB pass app')"

definition Update_trace ::
  "'p FrameInput \<Rightarrow> ('a, 'p) ShapesApp \<Rightarrow>
   (UINT64 \<times> ('a, 'p) ShapesApp) list \<times> (error + ('a, 'p) ShapesApp)" where
  \<comment> \<open>Lines 205 to 226, statement by statement. Beside the outcome it gives the states the
      thread passes through, in order, each with the latest completed value the fence has
      shown to the thread: once line 216 has read \<^verbatim>\<open>GetCompletedValue\<close> for the frame resource
      selected at line 212, once \<^verbatim>\<open>WaitForSingleObject\<close> has returned at line 220, and once
      lines 224 and 225 have written the constant buffers. When the wait does not return, the
      last state is the one the thread sleeps in.\<close>
  "Update_trace inp app =
     (case CycleFrameResource app of
        Inl err \<Rightarrow> ([], Inl err)
      | Inr app1 \<Rightarrow>
          (let fr = mFrameResources app1 ! nat (mCurrFrameResourceIndex app1);
               completed = CompletedValue inp
           in if FenceNotReached completed fr then
                (case WaitForSingleObject (Fence fr) (FenceProgress inp) of
                   None \<Rightarrow> ([(completed, app1)], Inl WaitNeverResolves)
                 | Some v \<Rightarrow>
                     (case UpdateCBs (PassConstants inp) app1 of
                        Inl err \<Rightarrow> ([(completed, app1), (v, app1)], Inl err)
                      | Inr app2 \<Rightarrow> ([(completed, app1), (v, app1), (v, app2)], Inr app2)))
              else
                (case UpdateCBs (PassConstants inp) app1 of
                   Inl err \<Rightarrow> ([(completed, app1)], Inl err)
                 | Inr app2 \<Rightarrow> ([(completed, app1), (completed, app2)], Inr app2))))"

definition Update :: "'p FrameInput \<Rightarrow> ('a, 'p) ShapesApp \<Rightarrow> error + ('a, 'p) ShapesApp" where
  \<comment> \<open>What \<^verbatim>\<open>ShapesApp::Update\<close> returns.\<close>
  "Update inp app = snd (Update_trace inp app)"

definition cbvIndex :: "int \<Rightarrow> UINT \<Rightarrow> UINT \<Rightarrow> UINT" where
  \<comment> \<open>Line 1512:
      \<^verbatim>\<open>UINT cbvIndex = mCurrFrameResourceIndex * (UINT)mOpaqueRitems.size() + ri->ObjCBIndex;\<close>\<close>
  "cbvIndex frameIndex opaqueSize objCBIndex = word_of_int frameIndex * opaqueSize + objCBIndex"

definition passCbvIndex :: "UINT \<Rightarrow> int \<Rightarrow> int" where
  \<comment> \<open>Line 266: \<^verbatim>\<open>int passCbvIndex = mPassCbvOffset + mCurrFrameResourceIndex;\<close>\<close>
  "passCbvIndex passCbvOffset frameIndex = sint (passCbvOffset + word_of_int frameIndex)"

fun DrawRenderItems_loop ::
  "int \<Rightarrow> UINT \<Rightarrow> 'a RenderItem list \<Rightarrow> nat list \<Rightarrow> error + Command list" where
  "DrawRenderItems_loop frameIndex opaqueSize allRitems [] = Inr []"
| "DrawRenderItems_loop frameIndex opaqueSize allRitems (p # ps) =
     (if p < length allRitems then
        (let ri = allRitems ! p;
             cbv = cbvIndex frameIndex opaqueSize (ObjCBIndex ri)
         in case DrawRenderItems_loop frameIndex opaqueSize allRitems ps of
              Inl err \<Rightarrow> Inl err
            | Inr cmds \<Rightarrow>
                Inr (SetGraphicsRootDescriptorTable 0 (sint cbv)
                     # DrawIndexedInstanced (DrawArgs ri) # cmds))
      else Inl DanglingRenderItem)"

definition DrawRenderItems :: "('a, 'p) ShapesApp \<Rightarrow> nat list \<Rightarrow> error + Command list" where
  \<comment> \<open>\<^verbatim>\<open>cbvHandle.Offset\<close> takes its first argument as \<^verbatim>\<open>INT\<close>: the \<^verbatim>\<open>UINT cbvIndex\<close> is read
      as a signed offset.\<close>
  "DrawRenderItems app ritems =
     DrawRenderItems_loop (mCurrFrameResourceIndex app)
       (word_of_nat (length (mOpaqueRitems app))) (mAllRitems app) ritems"

definition Draw :: "('a, 'p) ShapesApp \<Rightarrow> error + ('a, 'p) ShapesApp" where
  "Draw app =
     (case mCurrFrameResource app of
        None \<Rightarrow> Inl NullFrameResource
      | Some k \<Rightarrow>
          if k < length (mFrameResources app) then
            (let passCbv = passCbvIndex (mPassCbvOffset app) (mCurrFrameResourceIndex app)
             in case DrawRenderItems app (mOpaqueRitems app) of
                  Inl err \<Rightarrow> Inl err
                | Inr cmds \<Rightarrow>
                    (let fence = mCurrentFence app + 1;
                         fr = mFrameResources app ! k
                     in Inr (app \<lparr> mCommandList := SetGraphicsRootDescriptorTable 1 passCbv # cmds,
                                   mCurrentFence := fence,
                                   mFrameResources := (mFrameResources app)[k := fr \<lparr> Fence := fence \<rparr>] \<rparr>)))
          else Inl FrameResourceOutOfRange)"

definition Frame :: "'p FrameInput \<Rightarrow> ('a, 'p) ShapesApp \<Rightarrow> error + ('a, 'p) ShapesApp" where
  \<comment> \<open>Modelled from the spec: the run loop lives in the absent base class \<^verbatim>\<open>D3DApp\<close>; per
      produced frame the pool advances and the arenas are written (\<^verbatim>\<open>Update\<close>), then the
      draws are submitted and a new marker is recorded (\<^verbatim>\<open>Draw\<close>).\<close>
  "Frame inp app = (case Update inp app of Inl err \<Rightarrow> Inl err | Inr app' \<Rightarrow> Draw app')"

fun Run :: "'p FrameInput list \<Rightarrow> ('a, 'p) ShapesApp \<Rightarrow> error + ('a, 'p) ShapesApp" where
  "Run [] app = Inr app"
| "Run (inp # inps) app = (case Frame inp app of Inl err \<Rightarrow> Inl err | Inr app' \<Rightarrow> Run inps app')"

section \<open>Predicates used by the properties\<close>

text \<open>The state of \<^verbatim>\<open>BuildRenderItems\<close> between two blocks: the counter is the number of items
  pushed so far, every item carries its position as \<^verbatim>\<open>ObjCBIndex\<close>, and every dirty count is
  still at its initial value.\<close>

definition Numbered :: "UINT \<times> 'a RenderItem list \<Rightarrow> bool" where
  "Numbered s \<longleftrightarrow>
     fst s = word_of_nat (length (snd s)) \<and>
     map ObjCBIndex (snd s) = map word_of_nat [0..<length (snd s)] \<and>
     list_all (\<lambda>e. NumFramesDirty e = gNumFrameResources) (snd s)"

text \<open>The layout the scene build leaves behind and the frame loop keeps: three frame
  resources, each with an object arena of one record per item and a pass arena of one
  record; items numbered by position; the opaque list pointing at every item in order; the
  frame index inside the pool and the current frame resource, once set, the one at that
  index.\<close>

definition LaidOut :: "('a, 'p) ShapesApp \<Rightarrow> bool" where
  "LaidOut app \<longleftrightarrow>
     length (mFrameResources app) = nat gNumFrameResources \<and>
     list_all (\<lambda>fr. length (ObjectCB fr) = length (mAllRitems app) \<and> length (PassCB fr) = 1)
       (mFrameResources app) \<and>
     length (mAllRitems app) < 2 ^ 32 \<and>
     map ObjCBIndex (mAllRitems app) = map word_of_nat [0..<length (mAllRitems app)] \<and>
     mOpaqueRitems app = [0..<length (mAllRitems app)] \<and>
     0 \<le> mCurrFrameResourceIndex app \<and> mCurrFrameResourceIndex app < gNumFrameResources \<and>
     (mCurrFrameResource app = None \<or>
      mCurrFrameResource app = Some (nat (mCurrFrameResourceIndex app)))"

text \<open>The states of the program: what \<^verbatim>\<open>Initialize\<close> returns, and what \<^verbatim>\<open>Update\<close> and
  \<^verbatim>\<open>Draw\<close> make of a state when they return.\<close>

inductive reachable :: "('a::{zero,one}, 'p) ShapesApp \<Rightarrow> bool" where
  init: "Initialize W (ShapesApp pass0 fence0) = Inr app \<Longrightarrow> reachable app"
| update: "reachable app \<Longrightarrow> Update inp app = Inr app' \<Longrightarrow> reachable app'"
| draw: "reachable app \<Longrightarrow> Draw app = Inr app' \<Longrightarrow> reachable app'"

text \<open>What one dirty push does to an item and to the current object arena (the body of
  the loop of \<^verbatim>\<open>UpdateObjectCBs\<close>, with the write known to be in range).\<close>

definition Decrement :: "'a RenderItem \<Rightarrow> 'a RenderItem" where
  "Decrement e = (if NumFramesDirty e > 0 then e \<lparr> NumFramesDirty := NumFramesDirty e - 1 \<rparr> else e)"

definition PushDirty :: "'a RenderItem \<Rightarrow> 'a ObjectConstants UploadBuffer \<Rightarrow> 'a ObjectConstants UploadBuffer" where
  "PushDirty e cb =
     (if NumFramesDirty e > 0
      then cb[unat (ObjCBIndex e) := Some (ObjectConstants (XMMatrixTranspose (World e)))]
      else cb)"

text \<open>The state \<^verbatim>\<open>Update\<close> returns when every write is in range and the wait, if any,
  resolves; and the state \<^verbatim>\<open>Draw\<close> returns when the current frame resource is set. Both
  are shown below to be what the functions compute on a laid-out state.\<close>

definition NextFrameResource :: "('a, 'p) ShapesApp \<Rightarrow> nat" where
  "NextFrameResource app = nat ((mCurrFrameResourceIndex app + 1) smod gNumFrameResources)"

definition Updated :: "'p \<Rightarrow> ('a, 'p) ShapesApp \<Rightarrow> ('a, 'p) ShapesApp" where
  "Updated pass app =
     (let k = NextFrameResource app; fr = mFrameResources app ! k
      in app \<lparr> mCurrFrameResourceIndex := int k,
               mCurrFrameResource := Some k,
               mAllRitems := map Decrement (mAllRitems app),
               mMainPassCB := pass,
               mFrameResources := (mFrameResources app)
                 [k := fr \<lparr> ObjectCB := fold PushDirty (mAllRitems app) (ObjectCB fr),
                           PassCB := (PassCB fr)[0 := Some pass] \<rparr>] \<rparr>)"

definition DrawCommands :: "('a, 'p) ShapesApp \<Rightarrow> Command list" where
  "DrawCommands app =
     SetGraphicsRootDescriptorTable 1 (passCbvIndex (mPassCbvOffset app) (mCurrFrameResourceIndex app))
     # concat (map (\<lambda>p.
         [SetGraphicsRootDescriptorTable 0
            (sint (cbvIndex (mCurrFrameResourceIndex app) (word_of_nat (length (mOpaqueRitems app)))
                     (ObjCBIndex (mAllRitems app ! p)))),
          DrawIndexedInstanced (DrawArgs (mAllRitems app ! p))]) (mOpaqueRitems app))"

definition Drawn :: "('a, 'p) ShapesApp \<Rightarrow> ('a, 'p) ShapesApp" where
  "Drawn app =
     (let k = nat (mCurrFrameResourceIndex app); fence = mCurrentFence app + 1
      in app \<lparr> mCommandList := DrawCommands app,
               mCurrentFence := fence,
               mFrameResources := (mFrameResources app)[k := (mFrameResources app ! k) \<lparr> Fence := fence \<rparr>] \<rparr>)"

text \<open>Whether \<^verbatim>\<open>Update\<close> enters the body of the \<^verbatim>\<open>if\<close> at line 216, where it waits on the
  fence event.\<close>

definition UpdateWaits :: "'p FrameInput \<Rightarrow> ('a, 'p) ShapesApp \<Rightarrow> bool" where
  "UpdateWaits inp app =
     (case CycleFrameResource app of
        Inl err \<Rightarrow> False
      | Inr app1 \<Rightarrow>
          FenceNotReached (CompletedValue inp)
            (mFrameResources app1 ! nat (mCurrFrameResourceIndex app1)))"

text \<open>The fence values that the \<^verbatim>\<open>Draw\<close> calls of a run stamp on their frame resources, and
  the frame resources they stamp, frame by frame.\<close>

fun Stamps :: "'p FrameInput list \<Rightarrow> ('a, 'p) ShapesApp \<Rightarrow> UINT64 list" where
  "Stamps [] app = []"
| "Stamps (inp # inps) app =
     (case Frame inp app of
        Inl err \<Rightarrow> []
      | Inr app' \<Rightarrow>
          Fence (mFrameResources app' ! nat (mCurrFrameResourceIndex app')) # Stamps inps app')"

fun RetiredSlots :: "'p FrameInput list \<Rightarrow> ('a, 'p) ShapesApp \<Rightarrow> nat list" where
  "RetiredSlots [] app = []"
| "RetiredSlots (inp # inps) app =
     (case Frame inp app of
        Inl err \<Rightarrow> []
      | Inr app' \<Rightarrow> nat (mCurrFrameResourceIndex app') # RetiredSlots inps app')"

definition SetWorld :: "nat \<Rightarrow> 'a XMFLOAT4X4 \<Rightarrow> ('a, 'p) ShapesApp \<Rightarrow> ('a, 'p) ShapesApp" where
  \<comment> \<open>Modelled from the spec: a transform mutation. The source file builds a static scene
      and has no code that changes \<^verbatim>\<open>World\<close> after the build; the spec's data model says a
      mutation sets \<^verbatim>\<open>dirtyCount = N\<close>, as does the comment on \<^verbatim>\<open>NumFramesDirty\<close> in
      \<^verbatim>\<open>struct RenderItem\<close>.\<close>
  "SetWorld i w app =
     app \<lparr> mAllRitems := (mAllRitems app)
             [i := (mAllRitems app ! i) \<lparr> World := w, NumFramesDirty := gNumFrameResources \<rparr>] \<rparr>"

text \<open>What the inner loop of \<^verbatim>\<open>BuildConstantBufferViews\<close> leaves in the heap for one frame
  when every handle is inside the heap, and the heap \<^verbatim>\<open>BuildConstantBufferViews\<close> returns:
  the object views frame by frame, then the three pass views.\<close>

definition objectViews :: "nat \<Rightarrow> UINT \<Rightarrow> CBV option list \<Rightarrow> CBV option list" where
  "objectViews f objCount heap =
     fold (\<lambda>i h. h[nat (objHeapIndex (int f) objCount i) := Some (CBV f ObjectRecord i)])
       (map word_of_nat [0..<unat objCount]) heap"

definition passView :: "nat \<Rightarrow> UINT \<Rightarrow> CBV option list \<Rightarrow> CBV option list" where
  "passView f passCbvOffset heap =
     heap[nat (passHeapIndex passCbvOffset (int f)) := Some (CBV f PassRecord 0)]"

definition publishedHeap :: "UINT \<Rightarrow> UINT \<Rightarrow> CBV option list \<Rightarrow> CBV option list" where
  "publishedHeap objCount passCbvOffset heap =
     passView 2 passCbvOffset (passView 1 passCbvOffset (passView 0 passCbvOffset
       (objectViews 2 objCount (objectViews 1 objCount (objectViews 0 objCount heap)))))"

text \<open>The descriptors a command list binds, in order, each as root parameter and offset
  into the heap; and the view a heap holds at an offset, if the offset is inside the heap
  and a view was created there.\<close>

fun BoundDescriptors :: "Command list \<Rightarrow> (nat \<times> int) list" where
  "BoundDescriptors [] = []"
| "BoundDescriptors (SetGraphicsRootDescriptorTable root offset # cmds) =
     (root, offset) # BoundDescriptors cmds"
| "BoundDescriptors (DrawIndexedInstanced args # cmds) = BoundDescriptors cmds"

definition DescriptorAt :: "CBV option list \<Rightarrow> int \<Rightarrow> CBV option" where
  "DescriptorAt heap offset =
     (if 0 \<le> offset \<and> nat offset < length heap then heap ! nat offset else None)"

text \<open>The range of a dirty count.\<close>

definition Bounded :: "'a RenderItem \<Rightarrow> bool" where
  "Bounded e \<longleftrightarrow> 0 \<le> NumFramesDirty e \<and> NumFramesDirty e \<le> gNumFrameResources"

text \<open>The descriptor addressing scheme as one function of frame, kind and slot: the two
  formulas of \<^verbatim>\<open>BuildConstantBufferViews\<close>, with the pass offset
  \<^verbatim>\<open>mPassCbvOffset = objCount * gNumFrameResources\<close> of \<^verbatim>\<open>BuildDescriptorHeaps\<close>. A pass
  record has no slot; its triple carries slot 0.\<close>

definition descriptorOffset :: "UINT \<Rightarrow> int \<Rightarrow> RecordKind \<Rightarrow> UINT \<Rightarrow> int" where
  "descriptorOffset objCount frameIndex kind slot =
     (case kind of
        ObjectRecord \<Rightarrow> objHeapIndex frameIndex objCount slot
      | PassRecord \<Rightarrow> passHeapIndex (objCount * word_of_int gNumFrameResources) frameIndex)"

definition validDescriptor :: "UINT \<Rightarrow> int \<Rightarrow> RecordKind \<Rightarrow> UINT \<Rightarrow> bool" where
  "validDescriptor objCount frameIndex kind slot \<longleftrightarrow>
     0 \<le> frameIndex \<and> frameIndex < gNumFrameResources \<and>
     (case kind of ObjectRecord \<Rightarrow> slot < objCount | PassRecord \<Rightarrow> slot = 0)"

section \<open>The scene build numbers the items by position\<close>

lemma addRitem_Numbered: "Numbered s \<Longrightarrow> Numbered (addRitem w sh s)"
  by (cases s) (simp add: Numbered_def addRitem_def RenderItem_def Let_def)

lemma addRitemPair_Numbered: "Numbered s \<Longrightarrow> Numbered (addRitemPair w1 w2 sh s)"
  by (cases s) (simp add: Numbered_def addRitemPair_def RenderItem_def Let_def)

lemma fold_Numbered:
  "(\<And>x s. x \<in> set xs \<Longrightarrow> Numbered s \<Longrightarrow> Numbered (f x s)) \<Longrightarrow> Numbered s \<Longrightarrow> Numbered (fold f xs s)"
  by (induction xs arbitrary: s) simp_all

lemma forLoop_Numbered:
  "(\<And>i s. Numbered s \<Longrightarrow> Numbered (body i s)) \<Longrightarrow> Numbered s \<Longrightarrow> Numbered (forLoop n body s)"
  unfolding forLoop_def by (rule fold_Numbered)

lemma blocks_Numbered:
  "block \<in> set (BuildRenderItems_blocks W) \<Longrightarrow> Numbered s \<Longrightarrow> Numbered (block s)"
  unfolding BuildRenderItems_blocks_def
  by (auto intro: addRitem_Numbered addRitemPair_Numbered forLoop_Numbered)

lemma length_addRitem: "length (snd (addRitem w sh s)) = Suc (length (snd s))"
  by (cases s) (simp add: addRitem_def Let_def)

lemma length_addRitemPair: "length (snd (addRitemPair w1 w2 sh s)) = Suc (Suc (length (snd s)))"
  by (cases s) (simp add: addRitemPair_def Let_def)

lemma length_forLoop_pair:
  "length (snd (forLoop n (\<lambda>i. addRitemPair (f i) (g i) sh) s)) = length (snd s) + 2 * n"
proof -
  have "length (snd (fold (\<lambda>i. addRitemPair (f i) (g i) sh) xs s)) = length (snd s) + 2 * length xs" for xs
    by (induction xs arbitrary: s) (simp_all add: length_addRitemPair)
  then show ?thesis by (simp add: forLoop_def)
qed

lemma length_blocks:
  "length (snd (fold (\<lambda>block s. block s) (BuildRenderItems_blocks W) s)) = length (snd s) + 153"
  by (simp add: BuildRenderItems_blocks_def length_addRitem length_forLoop_pair)

section \<open>One pass of the dirty-push loop\<close>

lemma PushDirty_pos:
  "0 < NumFramesDirty e \<Longrightarrow>
   PushDirty e cb = cb[unat (ObjCBIndex e) := Some (ObjectConstants (XMMatrixTranspose (World e)))]"
  by (simp add: PushDirty_def)

lemma PushDirty_clean: "\<not> 0 < NumFramesDirty e \<Longrightarrow> PushDirty e cb = cb"
  by (simp add: PushDirty_def)

lemma Decrement_pos:
  "0 < NumFramesDirty e \<Longrightarrow> Decrement e = e \<lparr> NumFramesDirty := NumFramesDirty e - 1 \<rparr>"
  by (simp add: Decrement_def)

lemma Decrement_clean: "\<not> 0 < NumFramesDirty e \<Longrightarrow> Decrement e = e"
  by (simp add: Decrement_def)

lemma length_PushDirty [simp]: "length (PushDirty e cb) = length cb"
  by (simp add: PushDirty_def)

lemma length_fold_PushDirty [simp]: "length (fold PushDirty es cb) = length cb"
  by (induction es arbitrary: cb) simp_all

lemma UpdateObjectCBs_loop_eq:
  "\<forall>e\<in>set es. unat (ObjCBIndex e) < length cb \<Longrightarrow>
   UpdateObjectCBs_loop es cb = Inr (map Decrement es, fold PushDirty es cb)"
proof (induction es arbitrary: cb)
  case Nil
  then show ?case by simp
next
  case (Cons e es)
  have rest: "\<forall>x\<in>set es. unat (ObjCBIndex x) < length (PushDirty e cb)"
    using Cons.prems by simp
  show ?case
  proof (cases "0 < NumFramesDirty e")
    case True
    then show ?thesis
      using Cons.prems Cons.IH [OF rest]
      by (simp add: CopyData_def Decrement_pos PushDirty_pos Let_def)
  next
    case False
    then show ?thesis
      using Cons.prems Cons.IH [OF rest]
      by (simp add: Decrement_clean PushDirty_clean)
  qed
qed

lemma fold_PushDirty_other:
  "j \<notin> (\<lambda>e. unat (ObjCBIndex e)) ` set es \<Longrightarrow> fold PushDirty es cb ! j = cb ! j"
proof (induction es arbitrary: cb)
  case Nil
  then show ?case by simp
next
  case (Cons a es)
  then have "fold PushDirty es (PushDirty a cb) ! j = PushDirty a cb ! j" by simp
  moreover have "PushDirty a cb ! j = cb ! j"
    using Cons.prems by (cases "0 < NumFramesDirty a") (auto simp: PushDirty_pos PushDirty_clean)
  ultimately show ?case by simp
qed

lemma fold_PushDirty_nth:
  assumes "distinct (map (\<lambda>e. unat (ObjCBIndex e)) es)" and "e \<in> set es"
    and "unat (ObjCBIndex e) < length cb"
  shows "fold PushDirty es cb ! unat (ObjCBIndex e) =
         (if NumFramesDirty e > 0 then Some (ObjectConstants (XMMatrixTranspose (World e)))
          else cb ! unat (ObjCBIndex e))"
  using assms
proof (induction es arbitrary: cb)
  case Nil
  then show ?case by simp
next
  case (Cons a es)
  show ?case
  proof (cases "e = a")
    case True
    then have "unat (ObjCBIndex e) \<notin> (\<lambda>e. unat (ObjCBIndex e)) ` set es"
      using Cons.prems(1) by auto
    then have "fold PushDirty es (PushDirty a cb) ! unat (ObjCBIndex e)
               = PushDirty a cb ! unat (ObjCBIndex e)"
      by (rule fold_PushDirty_other)
    then show ?thesis
      using True Cons.prems(3)
      by (cases "0 < NumFramesDirty a") (simp_all add: PushDirty_pos PushDirty_clean)
  next
    case False
    then have mem: "e \<in> set es" using Cons.prems(2) by simp
    then have ne: "unat (ObjCBIndex a) \<noteq> unat (ObjCBIndex e)"
      using Cons.prems(1) by auto
    have "fold PushDirty es (PushDirty a cb) ! unat (ObjCBIndex e) =
          (if NumFramesDirty e > 0 then Some (ObjectConstants (XMMatrixTranspose (World e)))
           else PushDirty a cb ! unat (ObjCBIndex e))"
      using Cons.IH [of "PushDirty a cb"] Cons.prems mem by simp
    then show ?thesis
      using ne by (cases "0 < NumFramesDirty a") (simp_all add: PushDirty_pos PushDirty_clean)
  qed
qed

lemma LaidOut_unat_index:
  assumes "length rs < 2 ^ 32" and "map ObjCBIndex rs = map word_of_nat [0..<length rs]"
  shows "map (\<lambda>e. unat (ObjCBIndex e)) rs = [0..<length rs]"
proof (rule nth_equalityI)
  show "length (map (\<lambda>e. unat (ObjCBIndex e)) rs) = length [0..<length rs]" by simp
next
  fix i assume "i < length (map (\<lambda>e. unat (ObjCBIndex e)) rs)"
  then have i: "i < length rs" by simp
  have "ObjCBIndex (rs ! i) = (word_of_nat i :: UINT)"
    using arg_cong [OF assms(2), of "\<lambda>xs. xs ! i"] i by simp
  moreover have "unat (word_of_nat i :: UINT) = i"
    using i assms(1) by (simp add: unat_of_nat)
  ultimately show "map (\<lambda>e. unat (ObjCBIndex e)) rs ! i = [0..<length rs] ! i"
    using i by simp
qed

section \<open>Update and Draw on a laid-out state\<close>

lemma smod_nonneg: "0 \<le> a \<Longrightarrow> 0 < b \<Longrightarrow> (a::int) smod b = a mod b"
  by (cases "a = 0") (simp_all add: signed_modulo_int_def)

lemma NextFrameResource_less:
  "0 \<le> mCurrFrameResourceIndex app \<Longrightarrow> NextFrameResource app < 3"
  by (simp add: NextFrameResource_def gNumFrameResources_def smod_nonneg)

lemma NextFrameResource_eq:
  "0 \<le> mCurrFrameResourceIndex app \<Longrightarrow>
   NextFrameResource app = (nat (mCurrFrameResourceIndex app) + 1) mod 3"
  by (simp add: NextFrameResource_def gNumFrameResources_def smod_nonneg nat_mod_distrib nat_add_distrib)

lemma LaidOut_frames: "LaidOut app \<Longrightarrow> length (mFrameResources app) = 3"
  by (simp add: LaidOut_def gNumFrameResources_def)

lemma LaidOut_arena:
  "LaidOut app \<Longrightarrow> k < 3 \<Longrightarrow>
   length (ObjectCB (mFrameResources app ! k)) = length (mAllRitems app) \<and>
   length (PassCB (mFrameResources app ! k)) = 1"
  by (simp add: LaidOut_def gNumFrameResources_def list_all_length)

lemma LaidOut_index:
  "LaidOut app \<Longrightarrow> map (\<lambda>e. unat (ObjCBIndex e)) (mAllRitems app) = [0..<length (mAllRitems app)]"
  by (rule LaidOut_unat_index) (simp_all add: LaidOut_def)

lemma LaidOut_index_nth:
  assumes "LaidOut app" and "i < length (mAllRitems app)"
  shows "unat (ObjCBIndex (mAllRitems app ! i)) = i"
  using arg_cong [OF LaidOut_index [OF assms(1)], of "\<lambda>xs. xs ! i"] assms(2) by simp

lemma LaidOut_in_range:
  assumes "LaidOut app" and "e \<in> set (mAllRitems app)"
  shows "unat (ObjCBIndex e) < length (mAllRitems app)"
proof -
  obtain i where "i < length (mAllRitems app)" and "mAllRitems app ! i = e"
    using assms(2) by (auto simp: in_set_conv_nth)
  then show ?thesis using LaidOut_index_nth [OF assms(1)] by auto
qed

lemma CycleFrameResource_LaidOut:
  assumes "LaidOut app"
  shows "CycleFrameResource app =
         Inr (app \<lparr> mCurrFrameResourceIndex := int (NextFrameResource app),
                    mCurrFrameResource := Some (NextFrameResource app) \<rparr>)"
proof -
  have idx: "0 \<le> mCurrFrameResourceIndex app" using assms by (simp add: LaidOut_def)
  have "0 \<le> (mCurrFrameResourceIndex app + 1) smod gNumFrameResources"
    using idx by (simp add: gNumFrameResources_def smod_nonneg)
  then show ?thesis
    using NextFrameResource_less [OF idx] LaidOut_frames [OF assms]
    by (simp add: CycleFrameResource_def NextFrameResource_def Let_def)
qed

lemma UpdateCBs_LaidOut:
  assumes "LaidOut app"
  shows "UpdateCBs pass (app \<lparr> mCurrFrameResourceIndex := int (NextFrameResource app),
                               mCurrFrameResource := Some (NextFrameResource app) \<rparr>)
         = Inr (Updated pass app)"
proof -
  let ?k = "NextFrameResource app"
  have idx: "0 \<le> mCurrFrameResourceIndex app" using assms by (simp add: LaidOut_def)
  have k: "?k < 3" by (rule NextFrameResource_less [OF idx])
  have len: "length (mFrameResources app) = 3" by (rule LaidOut_frames [OF assms])
  have arena: "length (ObjectCB (mFrameResources app ! ?k)) = length (mAllRitems app)"
    and pass: "length (PassCB (mFrameResources app ! ?k)) = 1"
    using LaidOut_arena [OF assms k] by simp_all
  have "\<forall>e\<in>set (mAllRitems app). unat (ObjCBIndex e) < length (ObjectCB (mFrameResources app ! ?k))"
    using LaidOut_in_range [OF assms] arena by simp
  then have loop: "UpdateObjectCBs_loop (mAllRitems app) (ObjectCB (mFrameResources app ! ?k)) =
      Inr (map Decrement (mAllRitems app),
           fold PushDirty (mAllRitems app) (ObjectCB (mFrameResources app ! ?k)))"
    by (rule UpdateObjectCBs_loop_eq)
  have ne: "PassCB (mFrameResources app ! ?k) \<noteq> []" using pass by auto
  show ?thesis
    using k len ne loop
    by (simp add: UpdateCBs_def UpdateObjectCBs_def UpdateMainPassCB_def CopyData_def Updated_def Let_def)
qed

lemma Update_LaidOut:
  assumes "LaidOut app"
  shows "Update inp app =
     (if FenceNotReached (CompletedValue inp) (mFrameResources app ! NextFrameResource app) \<and>
         WaitForSingleObject (Fence (mFrameResources app ! NextFrameResource app)) (FenceProgress inp) = None
      then Inl WaitNeverResolves
      else Inr (Updated (PassConstants inp) app))"
  using UpdateCBs_LaidOut [OF assms, of "PassConstants inp"]
  by (simp add: Update_def Update_trace_def CycleFrameResource_LaidOut [OF assms] Let_def
        split: option.splits)

lemma Update_trace_LaidOut:
  assumes "LaidOut app"
  defines "k \<equiv> NextFrameResource app"
  defines "sel \<equiv> app \<lparr> mCurrFrameResourceIndex := int k, mCurrFrameResource := Some k \<rparr>"
  shows "fst (Update_trace inp app) =
     (if FenceNotReached (CompletedValue inp) (mFrameResources app ! k) then
        (case WaitForSingleObject (Fence (mFrameResources app ! k)) (FenceProgress inp) of
           None \<Rightarrow> [(CompletedValue inp, sel)]
         | Some v \<Rightarrow> [(CompletedValue inp, sel), (v, sel), (v, Updated (PassConstants inp) app)])
      else [(CompletedValue inp, sel), (CompletedValue inp, Updated (PassConstants inp) app)])"
  using UpdateCBs_LaidOut [OF assms(1), of "PassConstants inp"]
  unfolding k_def sel_def
  by (simp add: Update_trace_def CycleFrameResource_LaidOut [OF assms(1)] Let_def
        split: option.splits)

lemma DrawRenderItems_loop_eq:
  "\<forall>p\<in>set ps. p < length rs \<Longrightarrow>
   DrawRenderItems_loop f n rs ps =
     Inr (concat (map (\<lambda>p. [SetGraphicsRootDescriptorTable 0 (sint (cbvIndex f n (ObjCBIndex (rs ! p)))),
                              DrawIndexedInstanced (DrawArgs (rs ! p))]) ps))"
  by (induction ps) (simp_all add: Let_def)

lemma Draw_LaidOut:
  assumes "LaidOut app" and "mCurrFrameResource app \<noteq> None"
  shows "Draw app = Inr (Drawn app)"
proof -
  have cur: "mCurrFrameResource app = Some (nat (mCurrFrameResourceIndex app))"
    using assms by (auto simp: LaidOut_def)
  have k: "nat (mCurrFrameResourceIndex app) < length (mFrameResources app)"
    using assms(1) by (simp add: LaidOut_def)
  have "\<forall>p\<in>set (mOpaqueRitems app). p < length (mAllRitems app)"
    using assms(1) by (simp add: LaidOut_def)
  then show ?thesis
    using cur k
    by (simp add: Draw_def DrawRenderItems_def DrawRenderItems_loop_eq Drawn_def DrawCommands_def Let_def)
qed

lemma Draw_null: "mCurrFrameResource app = None \<Longrightarrow> Draw app = Inl NullFrameResource"
  by (simp add: Draw_def)

lemma ObjCBIndex_Decrement [simp]: "ObjCBIndex (Decrement e) = ObjCBIndex e"
  by (simp add: Decrement_def)

lemma World_Decrement [simp]: "World (Decrement e) = World e"
  by (simp add: Decrement_def)

lemma LaidOut_Updated:
  assumes "LaidOut app"
  shows "LaidOut (Updated pass app)"
proof -
  have idx: "0 \<le> mCurrFrameResourceIndex app" using assms by (simp add: LaidOut_def)
  have k: "NextFrameResource app < 3" by (rule NextFrameResource_less [OF idx])
  have arena: "length (ObjectCB (mFrameResources app ! NextFrameResource app)) = length (mAllRitems app)"
    and pass: "length (PassCB (mFrameResources app ! NextFrameResource app)) = 1"
    using LaidOut_arena [OF assms k] by simp_all
  have idxs: "map (ObjCBIndex \<circ> Decrement) (mAllRitems app) = map ObjCBIndex (mAllRitems app)"
    by (rule map_cong) simp_all
  show ?thesis
    using assms k arena pass idxs
    by (auto simp: LaidOut_def Updated_def Let_def gNumFrameResources_def list_all_length nth_list_update)
qed

lemma LaidOut_Drawn:
  assumes "LaidOut app"
  shows "LaidOut (Drawn app)"
  using assms
  by (auto simp: LaidOut_def Drawn_def Let_def gNumFrameResources_def list_all_length nth_list_update)

section \<open>The descriptor addressing scheme\<close>

lemma block_bound: "3 * (M + 1) \<le> (B::nat) \<Longrightarrow> s < M \<Longrightarrow> k \<le> 2 * M \<Longrightarrow> k + s < B"
  by arith

lemma pass_bound: "3 * (M + 1) \<le> (B::nat) \<Longrightarrow> j \<le> 2 \<Longrightarrow> M * 3 + j < B"
  by arith

lemma sint_word_of_nat_32:
  assumes "n < 2147483648"
  shows "sint (word_of_nat n :: UINT) = int n"
proof -
  have "int n < 2 ^ 31" using assms by simp
  then have "signed_take_bit 31 (int n) = int n"
    by (simp add: signed_take_bit_int_eq_self)
  then show ?thesis by (simp add: signed_of_nat)
qed

lemma objHeapIndex_no_wrap:
  assumes "0 \<le> f" and "f < 3" and "s < objCount" and "3 * (unat objCount + 1) \<le> 2147483648"
  shows "objHeapIndex f objCount s = f * uint objCount + uint s"
proof -
  let ?n = "nat f * unat objCount + unat s"
  have s: "unat s < unat objCount" using assms(3) by (simp add: word_less_nat_alt)
  have "nat f \<le> 2" using assms(2) by linarith
  then have "nat f * unat objCount \<le> 2 * unat objCount" by (rule mult_le_mono1)
  then have bound: "?n < 2147483648" by (rule block_bound [OF assms(4) s])
  have "(word_of_int f :: UINT) = word_of_nat (nat f)" using assms(1) by simp
  then have "word_of_int f * objCount + s = (word_of_nat ?n :: UINT)" by simp
  then have "objHeapIndex f objCount s = int ?n"
    by (simp only: objHeapIndex_def sint_word_of_nat_32 [OF bound])
  then show ?thesis using assms(1) by simp
qed

lemma passHeapIndex_no_wrap:
  assumes "0 \<le> f" and "f < 3" and "3 * (unat objCount + 1) \<le> 2147483648"
  shows "passHeapIndex (objCount * word_of_int gNumFrameResources) f = 3 * uint objCount + f"
proof -
  let ?n = "unat objCount * 3 + nat f"
  have "nat f \<le> 2" using assms(2) by linarith
  then have bound: "?n < 2147483648" by (rule pass_bound [OF assms(3)])
  have "(word_of_int f :: UINT) = word_of_nat (nat f)" using assms(1) by simp
  then have "objCount * word_of_int gNumFrameResources + word_of_int f = (word_of_nat ?n :: UINT)"
    by (simp add: gNumFrameResources_def)
  then have "passHeapIndex (objCount * word_of_int gNumFrameResources) f = int ?n"
    by (simp only: passHeapIndex_def sint_word_of_nat_32 [OF bound])
  then show ?thesis using assms(1) by simp
qed


lemma descriptorOffset_closed_form:
  assumes fits: "3 * (unat objCount + 1) \<le> 2 ^ 31"
    and valid: "validDescriptor objCount f k s"
  shows "descriptorOffset objCount f k s =
         (case k of ObjectRecord \<Rightarrow> f * uint objCount + uint s
                  | PassRecord \<Rightarrow> gNumFrameResources * uint objCount + f)"
proof -
  have fits': "3 * (unat objCount + 1) \<le> 2147483648" using fits by simp
  have f: "0 \<le> f" "f < 3" using valid by (simp_all add: validDescriptor_def gNumFrameResources_def)
  show ?thesis
  proof (cases k)
    case ObjectRecord
    then have s: "s < objCount" using valid by (simp add: validDescriptor_def)
    show ?thesis
      using ObjectRecord objHeapIndex_no_wrap [OF f s fits']
      by (simp add: descriptorOffset_def)
  next
    case PassRecord
    then show ?thesis
      using passHeapIndex_no_wrap [OF f fits']
      by (simp add: descriptorOffset_def gNumFrameResources_def)
  qed
qed

lemma block_offsets_distinct:
  fixes M :: int
  assumes "0 \<le> f1" "f1 < 3" "0 \<le> f2" "f2 < 3" "0 \<le> s1" "s1 < M" "0 \<le> s2" "s2 < M"
    and "f1 * M + s1 = f2 * M + s2"
  shows "f1 = f2 \<and> s1 = s2"
proof -
  have "f1 = 0 \<or> f1 = 1 \<or> f1 = 2" using assms(1,2) by arith
  moreover have "f2 = 0 \<or> f2 = 1 \<or> f2 = 2" using assms(3,4) by arith
  ultimately show ?thesis using assms(5-9) by auto
qed

lemma block_before_pass:
  fixes M :: int
  assumes "0 \<le> f1" "f1 < 3" "0 \<le> s1" "s1 < M" "0 \<le> f2"
  shows "f1 * M + s1 \<noteq> 3 * M + f2"
proof -
  have "f1 = 0 \<or> f1 = 1 \<or> f1 = 2" using assms(1,2) by arith
  then show ?thesis using assms(3-5) by auto
qed

text \<open>
  Claim C3. Offset injectivity: for a scene of \<open>objCount\<close> items whose descriptor count
  \<open>3 * (objCount + 1)\<close> fits the \<^verbatim>\<open>int\<close> that holds a heap index, two valid triples of frame,
  kind and slot have the same descriptor offset only when they are the same triple. The
  object records of frame \<open>f\<close> are the contiguous block starting at \<open>f * objCount\<close>, one
  offset per slot, and the pass records are the block of three starting at
  \<open>3 * objCount\<close>.
\<close>

theorem descriptor_offset_injective:
  assumes fits: "3 * (unat objCount + 1) \<le> 2 ^ 31"
    and v1: "validDescriptor objCount f1 k1 s1"
    and v2: "validDescriptor objCount f2 k2 s2"
  shows "(descriptorOffset objCount f1 k1 s1 = descriptorOffset objCount f2 k2 s2
            \<longleftrightarrow> (f1, k1, s1) = (f2, k2, s2)) \<and>
         descriptorOffset objCount f1 k1 s1 =
           (case k1 of ObjectRecord \<Rightarrow> f1 * uint objCount + uint s1
                     | PassRecord \<Rightarrow> gNumFrameResources * uint objCount + f1)"
proof -
  note c1 = descriptorOffset_closed_form [OF fits v1]
  note c2 = descriptorOffset_closed_form [OF fits v2]
  have f1: "0 \<le> f1" "f1 < 3" using v1 by (simp_all add: validDescriptor_def gNumFrameResources_def)
  have f2: "0 \<le> f2" "f2 < 3" using v2 by (simp_all add: validDescriptor_def gNumFrameResources_def)
  have inj: "(f1, k1, s1) = (f2, k2, s2)"
    if eq: "descriptorOffset objCount f1 k1 s1 = descriptorOffset objCount f2 k2 s2"
  proof (cases k1; cases k2)
    assume k: "k1 = ObjectRecord" "k2 = ObjectRecord"
    have s1: "uint s1 < uint objCount" and s2: "uint s2 < uint objCount"
      using v1 v2 k by (simp_all add: validDescriptor_def word_less_def)
    have "f1 * uint objCount + uint s1 = f2 * uint objCount + uint s2"
      using eq c1 c2 k by simp
    then have "f1 = f2 \<and> uint s1 = uint s2"
      using block_offsets_distinct [OF f1 f2 _ s1 _ s2] by simp
    then show ?thesis using k by (simp add: word_uint_eq_iff)
  next
    assume k: "k1 = ObjectRecord" "k2 = PassRecord"
    have s1: "uint s1 < uint objCount"
      using v1 k by (simp add: validDescriptor_def word_less_def)
    have "f1 * uint objCount + uint s1 = 3 * uint objCount + f2"
      using eq c1 c2 k by (simp add: gNumFrameResources_def)
    then have False
      using block_before_pass [OF f1 _ s1 f2(1)] by simp
    then show ?thesis ..
  next
    assume k: "k1 = PassRecord" "k2 = ObjectRecord"
    have s2: "uint s2 < uint objCount"
      using v2 k by (simp add: validDescriptor_def word_less_def)
    have "3 * uint objCount + f1 = f2 * uint objCount + uint s2"
      using eq c1 c2 k by (simp add: gNumFrameResources_def)
    then have False
      using block_before_pass [OF f2 _ s2 f1(1)] by simp
    then show ?thesis ..
  next
    assume k: "k1 = PassRecord" "k2 = PassRecord"
    have "s1 = 0" "s2 = 0" using v1 v2 k by (simp_all add: validDescriptor_def)
    moreover have "f1 = f2" using eq c1 c2 k by simp
    ultimately show ?thesis using k by simp
  qed
  show ?thesis using inj c1 by auto
qed

text \<open>The scene of the program has 153 items: the last slot of frame 0 and the first slot
  of frame 1 are neighbours.\<close>

theorem descriptor_offset_injective_witness:
  "3 * (unat (153 :: UINT) + 1) \<le> 2 ^ 31 \<and>
   validDescriptor 153 0 ObjectRecord 152 \<and> validDescriptor 153 1 ObjectRecord 0 \<and>
   descriptorOffset 153 0 ObjectRecord 152 = 152 \<and>
   descriptorOffset 153 0 ObjectRecord 152 \<noteq> descriptorOffset 153 1 ObjectRecord 0"
proof -
  have fits: "3 * (unat (153 :: UINT) + 1) \<le> 2 ^ 31" by simp
  have v1: "validDescriptor 153 0 ObjectRecord 152"
    and v2: "validDescriptor 153 1 ObjectRecord 0"
    by (simp_all add: validDescriptor_def gNumFrameResources_def)
  show ?thesis
    using fits v1 v2 descriptor_offset_injective [OF fits v1 v2] by simp
qed

section \<open>Initialize succeeds and lays the state out\<close>

lemma foldE_CreateConstantBufferView:
  "\<forall>x\<in>set xs. 0 \<le> idx x \<and> nat (idx x) < length heap \<Longrightarrow>
   foldE (\<lambda>x. CreateConstantBufferView (d x) (idx x)) xs heap =
     Inr (fold (\<lambda>x h. h[nat (idx x) := Some (d x)]) xs heap)"
  by (induction xs arbitrary: heap) (simp_all add: CreateConstantBufferView_def)

lemma length_fold_list_update [simp]:
  "length (fold (\<lambda>x h. h[j x := v x]) xs heap) = length heap"
  by (induction xs arbitrary: heap) simp_all

lemma BuildRenderItems_result:
  "BuildRenderItems W app =
     app \<lparr> mAllRitems := snd (fold (\<lambda>block s. block s) (BuildRenderItems_blocks W) (0, mAllRitems app)),
           mOpaqueRitems := mOpaqueRitems app @
             [0..<length (snd (fold (\<lambda>block s. block s) (BuildRenderItems_blocks W) (0, mAllRitems app)))] \<rparr>"
  by (simp add: BuildRenderItems_def split_beta)

lemma Numbered_scene:
  "Numbered (fold (\<lambda>block s. block s) (BuildRenderItems_blocks W) (0, []))"
proof (rule fold_Numbered)
  show "Numbered (block s)" if "block \<in> set (BuildRenderItems_blocks W)" and "Numbered s" for block s
    using that by (rule blocks_Numbered)
  show "Numbered (0, [])" by (simp add: Numbered_def)
qed

lemma scene_items:
  assumes "mAllRitems app = []"
  shows "length (mAllRitems (BuildRenderItems W app)) = 153"
    and "map ObjCBIndex (mAllRitems (BuildRenderItems W app)) = map word_of_nat [0..<153]"
    and "list_all (\<lambda>e. NumFramesDirty e = gNumFrameResources) (mAllRitems (BuildRenderItems W app))"
    and "mOpaqueRitems (BuildRenderItems W app) = mOpaqueRitems app @ [0..<153]"
proof -
  let ?X = "fold (\<lambda>block s. block s) (BuildRenderItems_blocks W) (0, [])"
  have rs: "mAllRitems (BuildRenderItems W app) = snd ?X"
    by (simp add: BuildRenderItems_result assms)
  show len: "length (mAllRitems (BuildRenderItems W app)) = 153"
    using length_blocks [of W "(0, [])"] by (simp add: rs)
  show "map ObjCBIndex (mAllRitems (BuildRenderItems W app)) = map word_of_nat [0..<153]"
    using Numbered_scene [of W] len by (simp add: Numbered_def rs)
  show "list_all (\<lambda>e. NumFramesDirty e = gNumFrameResources) (mAllRitems (BuildRenderItems W app))"
    using Numbered_scene [of W] by (simp add: Numbered_def rs)
  show "mOpaqueRitems (BuildRenderItems W app) = mOpaqueRitems app @ [0..<153]"
    using len by (simp add: BuildRenderItems_result assms)
qed

lemma BuildRenderItems_other_fields:
  "mFrameResources (BuildRenderItems W app) = mFrameResources app"
  "mCurrFrameResource (BuildRenderItems W app) = mCurrFrameResource app"
  "mCurrFrameResourceIndex (BuildRenderItems W app) = mCurrFrameResourceIndex app"
  "mCbvHeap (BuildRenderItems W app) = mCbvHeap app"
  "mCurrentFence (BuildRenderItems W app) = mCurrentFence app"
  by (simp_all add: BuildRenderItems_result)


lemma slot_word_less:
  fixes objCount :: UINT
  assumes "i < unat objCount"
  shows "(word_of_nat i :: UINT) < objCount"
proof -
  have "unat objCount < 2 ^ 32" using unsigned_less [of objCount] by simp
  then have "i < 2 ^ 32" using assms by simp
  then have "unat (word_of_nat i :: UINT) = i" by (simp add: unat_of_nat)
  then show ?thesis using assms by (simp add: word_less_nat_alt)
qed

lemma block_in_heap:
  fixes M :: int
  assumes "0 \<le> f" "f < 3" "0 \<le> s" "s < M"
  shows "0 \<le> f * M + s \<and> f * M + s < 3 * (M + 1)"
proof -
  have "f = 0 \<or> f = 1 \<or> f = 2" using assms(1,2) by arith
  then show ?thesis using assms(3,4) by auto
qed

lemma objHeapIndex_in_heap:
  assumes f: "0 \<le> f" "f < 3" and s: "s < objCount"
    and fits: "3 * (unat objCount + 1) \<le> 2147483648"
  shows "0 \<le> objHeapIndex f objCount s \<and>
         nat (objHeapIndex f objCount s) < 3 * (unat objCount + 1)"
proof -
  have eq: "objHeapIndex f objCount s = f * uint objCount + uint s"
    by (rule objHeapIndex_no_wrap [OF f s fits])
  have "uint s < uint objCount" using s by (simp add: word_less_def)
  then have "0 \<le> f * uint objCount + uint s \<and> f * uint objCount + uint s < 3 * (uint objCount + 1)"
    using block_in_heap [OF f, of "uint s" "uint objCount"] by simp
  moreover have "int (3 * (unat objCount + 1)) = 3 * (uint objCount + 1)" by simp
  ultimately show ?thesis unfolding eq by (metis nat_less_iff)
qed

lemma passLoop_ok:
  assumes f: "0 \<le> f" "f < 3"
    and fits: "3 * (unat objCount + 1) \<le> 2147483648"
    and heap: "length heap = 3 * (unat objCount + 1)"
  shows "CreateConstantBufferView (CBV (nat f) PassRecord 0)
           (passHeapIndex (objCount * word_of_int gNumFrameResources) f) heap =
         Inr (heap[nat (passHeapIndex (objCount * word_of_int gNumFrameResources) f)
                   := Some (CBV (nat f) PassRecord 0)])"
proof -
  have eq: "passHeapIndex (objCount * word_of_int gNumFrameResources) f = 3 * uint objCount + f"
    by (rule passHeapIndex_no_wrap [OF f fits])
  have "int (unat objCount) = uint objCount" by simp
  then have "0 \<le> 3 * uint objCount + f \<and> nat (3 * uint objCount + f) < 3 * (unat objCount + 1)"
    using f by (auto simp: nat_less_iff)
  then show ?thesis
    using heap by (simp add: CreateConstantBufferView_def eq)
qed

lemma frames_list: "[0 .. gNumFrameResources - 1] = [0, 1, 2]"
  by (simp add: gNumFrameResources_def upto.simps)

lemma fold_list_update_other:
  "q \<notin> j ` set xs \<Longrightarrow> fold (\<lambda>x h. h[j x := v x]) xs h ! q = h ! q"
  by (induction xs arbitrary: h) auto

lemma fold_list_update_nth:
  assumes "distinct (map j xs)" and "x \<in> set xs" and "j x < length h"
  shows "fold (\<lambda>x h. h[j x := v x]) xs h ! j x = v x"
  using assms
proof (induction xs arbitrary: h)
  case Nil
  then show ?case by simp
next
  case (Cons a xs)
  show ?case
  proof (cases "x \<in> set xs")
    case True
    then show ?thesis using Cons.IH [of "h[j a := v a]"] Cons.prems by simp
  next
    case False
    then have xa: "x = a" using Cons.prems(2) by simp
    have "j a \<notin> j ` set xs" using Cons.prems(1) by simp
    then have "fold (\<lambda>x h. h[j x := v x]) xs (h[j a := v a]) ! j a = h[j a := v a] ! j a"
      by (rule fold_list_update_other)
    then show ?thesis using Cons.prems(3) xa by simp
  qed
qed

lemma block_before_3M: "s < M \<Longrightarrow> k \<le> 2 * M \<Longrightarrow> k + s < 3 * (M::nat)"
  by arith

lemma slot_uint:
  fixes objCount :: UINT
  assumes "i < unat objCount"
  shows "uint (word_of_nat i :: UINT) = int i"
proof -
  have "unat objCount < 2 ^ 32" using unsigned_less [of objCount] by simp
  then have "i < 2 ^ 32" using assms by simp
  then have "unat (word_of_nat i :: UINT) = i" by (simp add: unat_of_nat)
  then show ?thesis by (metis uint_nat)
qed

lemma objHeapIndex_slot:
  assumes f: "f < 3" and i: "i < unat objCount"
    and fits: "3 * (unat objCount + 1) \<le> 2147483648"
  shows "nat (objHeapIndex (int f) objCount (word_of_nat i)) = f * unat objCount + i"
proof -
  have "objHeapIndex (int f) objCount (word_of_nat i) =
        int f * uint objCount + uint (word_of_nat i :: UINT)"
    using f by (intro objHeapIndex_no_wrap slot_word_less [OF i] fits) simp_all
  also have "\<dots> = int (f * unat objCount + i)"
    by (simp add: slot_uint [OF i])
  finally show ?thesis by (simp only: nat_int)
qed

lemma objectViews_fold:
  assumes f: "f < 3" and fits: "3 * (unat objCount + 1) \<le> 2147483648"
  shows "objectViews f objCount heap =
         fold (\<lambda>i h. h[f * unat objCount + i := Some (CBV f ObjectRecord (word_of_nat i))])
           [0..<unat objCount] heap"
  unfolding objectViews_def fold_map
  by (rule fold_cong) (simp_all add: objHeapIndex_slot [OF f _ fits])

lemma objectViews_length [simp]: "length (objectViews f objCount heap) = length heap"
  by (simp add: objectViews_def)

lemma objectViews_nth:
  assumes f: "f < 3" and fits: "3 * (unat objCount + 1) \<le> 2147483648"
    and i: "i < unat objCount" and heap: "length heap = 3 * (unat objCount + 1)"
  shows "objectViews f objCount heap ! (f * unat objCount + i) =
         Some (CBV f ObjectRecord (word_of_nat i))"
proof -
  let ?j = "\<lambda>i. f * unat objCount + i"
  have d: "distinct (map ?j [0..<unat objCount])"
    by (simp add: distinct_map inj_on_def)
  have m: "i \<in> set [0..<unat objCount]" using i by simp
  have "f \<le> 2" using f by simp
  then have "f * unat objCount \<le> 2 * unat objCount" by (rule mult_le_mono1)
  then have "?j i < 3 * (unat objCount + 1)" by (rule block_bound [OF le_refl i])
  then have r: "?j i < length heap" by (simp only: heap)
  show ?thesis
    unfolding objectViews_fold [OF f fits]
    by (rule fold_list_update_nth [OF d m r, of "\<lambda>i. Some (CBV f ObjectRecord (word_of_nat i))"])
qed

lemma objectViews_other:
  assumes f: "f < 3" and fits: "3 * (unat objCount + 1) \<le> 2147483648"
    and q: "q < f * unat objCount \<or> f * unat objCount + unat objCount \<le> q"
  shows "objectViews f objCount heap ! q = heap ! q"
proof -
  have "q \<notin> (\<lambda>i. f * unat objCount + i) ` set [0..<unat objCount]"
    using q by auto
  then show ?thesis
    unfolding objectViews_fold [OF f fits] by (rule fold_list_update_other)
qed

lemma objectLoop_eq:
  assumes f: "f < 3"
    and fits: "3 * (unat objCount + 1) \<le> 2147483648"
    and heap: "length heap = 3 * (unat objCount + 1)"
  shows "foldE (\<lambda>i. CreateConstantBufferView (CBV f ObjectRecord i)
                      (objHeapIndex (int f) objCount i))
           (map word_of_nat [0..<unat objCount]) heap = Inr (objectViews f objCount heap)"
proof -
  have "\<forall>x\<in>set (map word_of_nat [0..<unat objCount]).
          0 \<le> objHeapIndex (int f) objCount x \<and> nat (objHeapIndex (int f) objCount x) < length heap"
    using objHeapIndex_in_heap [OF _ _ slot_word_less fits, of "int f"] f heap by auto
  then show ?thesis
    unfolding objectViews_def
    by (rule foldE_CreateConstantBufferView)
qed

lemma passHeapIndex_slot:
  assumes f: "f < 3" and fits: "3 * (unat objCount + 1) \<le> 2147483648"
  shows "nat (passHeapIndex (objCount * word_of_int gNumFrameResources) (int f)) =
         3 * unat objCount + f"
proof -
  have "passHeapIndex (objCount * word_of_int gNumFrameResources) (int f) =
        3 * uint objCount + int f"
    using f by (intro passHeapIndex_no_wrap fits) simp_all
  also have "\<dots> = int (3 * unat objCount + f)" by simp
  finally show ?thesis by (simp only: nat_int)
qed

lemma passView_length [simp]: "length (passView f off heap) = length heap"
  by (simp add: passView_def)

lemma passLoop_eq:
  assumes f: "f < 3"
    and fits: "3 * (unat objCount + 1) \<le> 2147483648"
    and heap: "length heap = 3 * (unat objCount + 1)"
  shows "CreateConstantBufferView (CBV f PassRecord 0)
           (passHeapIndex (objCount * word_of_int gNumFrameResources) (int f)) heap =
         Inr (passView f (objCount * word_of_int gNumFrameResources) heap)"
  using passLoop_ok [OF _ _ fits heap, of "int f"] f by (simp add: passView_def)

lemma BuildConstantBufferViews_eq:
  fixes app :: "('a, 'p) ShapesApp"
  defines "objCount \<equiv> (word_of_nat (length (mOpaqueRitems app)) :: UINT)"
  assumes frs: "length (mFrameResources app) = 3"
    and fits: "3 * (unat objCount + 1) \<le> 2147483648"
    and heap: "length (mCbvHeap app) = 3 * (unat objCount + 1)"
    and off: "mPassCbvOffset app = objCount * word_of_int gNumFrameResources"
  shows "BuildConstantBufferViews app =
         Inr (app \<lparr> mCbvHeap := publishedHeap objCount (mPassCbvOffset app) (mCbvHeap app) \<rparr>)"
proof -
  let ?off = "objCount * word_of_int gNumFrameResources"
  let ?h0 = "objectViews 0 objCount (mCbvHeap app)"
  let ?h1 = "objectViews 1 objCount ?h0"
  let ?h2 = "objectViews 2 objCount ?h1"
  let ?p0 = "passView 0 ?off ?h2"
  let ?p1 = "passView 1 ?off ?p0"
  note o0 = objectLoop_eq [OF _ fits heap, of 0]
  have l0: "length ?h0 = 3 * (unat objCount + 1)" using heap by simp
  note o1 = objectLoop_eq [OF _ fits l0, of 1]
  have l1: "length ?h1 = 3 * (unat objCount + 1)" using heap by simp
  note o2 = objectLoop_eq [OF _ fits l1, of 2]
  have l2: "length ?h2 = 3 * (unat objCount + 1)" using heap by simp
  note q0 = passLoop_eq [OF _ fits l2, of 0]
  have m0: "length ?p0 = 3 * (unat objCount + 1)" using heap by simp
  note q1 = passLoop_eq [OF _ fits m0, of 1]
  have m1: "length ?p1 = 3 * (unat objCount + 1)" using heap by simp
  note q2 = passLoop_eq [OF _ fits m1, of 2]
  show ?thesis
    using o0 o1 o2 q0 q1 q2 frs
    by (simp add: BuildConstantBufferViews_def Let_def frames_list off objCount_def [symmetric]
          publishedHeap_def)
qed

lemma publishedHeap_object:
  assumes fits: "3 * (unat objCount + 1) \<le> 2147483648"
    and heap: "length heap = 3 * (unat objCount + 1)"
    and f: "f < 3" and i: "i < unat objCount"
  shows "publishedHeap objCount (objCount * word_of_int gNumFrameResources) heap
           ! (f * unat objCount + i) = Some (CBV f ObjectRecord (word_of_nat i))"
proof -
  let ?M = "unat objCount"
  let ?off = "objCount * word_of_int gNumFrameResources"
  let ?q = "f * ?M + i"
  let ?h0 = "objectViews 0 objCount heap"
  let ?h1 = "objectViews 1 objCount ?h0"
  let ?h2 = "objectViews 2 objCount ?h1"
  have "f \<le> 2" using f by simp
  then have "f * ?M \<le> 2 * ?M" by (rule mult_le_mono1)
  then have q3: "?q < 3 * ?M" by (rule block_before_3M [OF i])
  have pass: "passView g ?off h ! ?q = h ! ?q" if "g < 3" for g h
    using q3 by (simp add: passView_def passHeapIndex_slot [OF that fits])
  have "f = 0 \<or> f = 1 \<or> f = 2" using f by arith
  then have "?h2 ! ?q = Some (CBV f ObjectRecord (word_of_nat i))"
  proof (elim disjE)
    assume f0: "f = 0"
    have "?h2 ! ?q = ?h1 ! ?q" using i f0 by (intro objectViews_other fits) simp_all
    also have "\<dots> = ?h0 ! ?q" using i f0 by (intro objectViews_other fits) simp_all
    also have "\<dots> = Some (CBV f ObjectRecord (word_of_nat i))"
      unfolding f0 by (rule objectViews_nth [OF _ fits i heap]) simp
    finally show ?thesis .
  next
    assume f1: "f = 1"
    have "?h2 ! ?q = ?h1 ! ?q" using i f1 by (intro objectViews_other fits) simp_all
    also have "\<dots> = Some (CBV f ObjectRecord (word_of_nat i))"
      unfolding f1 using heap by (intro objectViews_nth [OF _ fits i]) simp_all
    finally show ?thesis .
  next
    assume f2: "f = 2"
    show ?thesis
      unfolding f2 using heap by (intro objectViews_nth [OF _ fits i]) simp_all
  qed
  then show ?thesis
    by (simp add: publishedHeap_def pass)
qed

lemma publishedHeap_pass:
  assumes fits: "3 * (unat objCount + 1) \<le> 2147483648"
    and heap: "length heap = 3 * (unat objCount + 1)"
    and f: "f < 3"
  shows "publishedHeap objCount (objCount * word_of_int gNumFrameResources) heap
           ! (3 * unat objCount + f) = Some (CBV f PassRecord 0)"
proof -
  let ?off = "objCount * word_of_int gNumFrameResources"
  have idx: "nat (passHeapIndex ?off (int g)) = 3 * unat objCount + g" if "g < 3" for g
    by (rule passHeapIndex_slot [OF that fits])
  note i0 = idx [of 0, simplified] and i1 = idx [of 1, simplified] and i2 = idx [of 2, simplified]
  have "f = 0 \<or> f = 1 \<or> f = 2" using f by arith
  then show ?thesis
    using heap by (auto simp: publishedHeap_def passView_def i0 i1 i2 nth_list_update)
qed

lemma Initialize_ok:
  fixes W :: "nat \<Rightarrow> nat \<Rightarrow> 'a::{zero,one} XMFLOAT4X4"
  shows "\<exists>app :: ('a, 'p) ShapesApp.
           Initialize W (ShapesApp pass0 fence0) = Inr app \<and> LaidOut app \<and>
           length (mAllRitems app) = 153 \<and>
           list_all (\<lambda>e. NumFramesDirty e = gNumFrameResources) (mAllRitems app) \<and>
           list_all (\<lambda>fr. Fence fr = 0) (mFrameResources app) \<and>
           mCurrFrameResource app = None \<and> mCurrFrameResourceIndex app = 0 \<and>
           mCurrentFence app = fence0 \<and> length (mCbvHeap app) = 462 \<and>
           length (mOpaqueRitems app) = 153 \<and>
           mPassCbvOffset app = 153 * word_of_int gNumFrameResources \<and>
           mCbvHeap app =
             publishedHeap 153 (153 * word_of_int gNumFrameResources) (replicate 462 None)"
proof -
  let ?a0 = "ShapesApp pass0 fence0 :: ('a, 'p) ShapesApp"
  let ?a1 = "BuildRenderItems W ?a0"
  let ?a3 = "BuildDescriptorHeaps (BuildFrameResources ?a1)"
  have empty: "mAllRitems ?a0 = []" by (simp add: ShapesApp_def)
  note items = scene_items [OF empty, of W]
  have opaque: "mOpaqueRitems ?a1 = [0..<153]"
    using items(4) by (simp add: ShapesApp_def)
  have others: "mFrameResources ?a1 = []" "mCurrFrameResource ?a1 = None"
    "mCurrFrameResourceIndex ?a1 = 0" "mCurrentFence ?a1 = fence0"
    by (simp_all add: BuildRenderItems_other_fields ShapesApp_def)
  have u153: "unat (153 :: UINT) = 153" by simp
  have u462: "unat (462 :: UINT) = 462" by simp
  have frs3: "mFrameResources ?a3 = replicate 3 (FrameResource 1 153)"
    using others(1) items(1)
    by (simp add: BuildDescriptorHeaps_def BuildFrameResources_def Let_def gNumFrameResources_def)
  have opaque3: "mOpaqueRitems ?a3 = [0..<153]"
    using opaque by (simp add: BuildDescriptorHeaps_def BuildFrameResources_def Let_def)
  have items3: "mAllRitems ?a3 = mAllRitems ?a1"
    by (simp add: BuildDescriptorHeaps_def BuildFrameResources_def Let_def)
  have heap3: "mCbvHeap ?a3 = replicate 462 None"
    using opaque u462
    by (simp add: BuildDescriptorHeaps_def BuildFrameResources_def Let_def gNumFrameResources_def)
  have off3: "mPassCbvOffset ?a3 = 153 * word_of_int gNumFrameResources"
    using opaque
    by (simp add: BuildDescriptorHeaps_def BuildFrameResources_def Let_def)
  have cur3: "mCurrFrameResource ?a3 = None" "mCurrFrameResourceIndex ?a3 = 0"
    "mCurrentFence ?a3 = fence0"
    using others by (simp_all add: BuildDescriptorHeaps_def BuildFrameResources_def Let_def)
  have count: "(word_of_nat (length (mOpaqueRitems ?a3)) :: UINT) = 153"
    by (simp add: opaque3)
  let ?heap = "publishedHeap 153 (153 * word_of_int gNumFrameResources) (replicate 462 None)"
  have built: "BuildConstantBufferViews ?a3 = Inr (?a3 \<lparr> mCbvHeap := ?heap \<rparr>)"
    using BuildConstantBufferViews_eq [of ?a3]
    unfolding count u153 by (simp add: frs3 heap3 off3)
  have len: "length ?heap = 462" by (simp add: publishedHeap_def)
  let ?app = "?a3 \<lparr> mCbvHeap := ?heap \<rparr>"
  have "LaidOut ?app"
    using items(1,2) u153
    by (simp add: LaidOut_def frs3 opaque3 items3 cur3 gNumFrameResources_def
        FrameResource_def UploadBuffer_def list_all_length)
  moreover have "list_all (\<lambda>fr. Fence fr = 0) (mFrameResources ?app)"
    by (simp add: frs3 FrameResource_def list_all_length)
  ultimately show ?thesis
    using built items(1,3) len
    by (simp add: Initialize_def items3 cur3 off3 opaque3)
qed

lemma reachable_LaidOut: "reachable app \<Longrightarrow> LaidOut app"
proof (induction rule: reachable.induct)
  case (init W pass0 fence0 app)
  then show ?case using Initialize_ok [of W pass0 fence0] by auto
next
  case (update app inp app')
  then show ?case
    by (auto simp: Update_LaidOut LaidOut_Updated split: if_splits)
next
  case (draw app app')
  then show ?case
    by (cases "mCurrFrameResource app = None")
       (auto simp: Draw_null Draw_LaidOut LaidOut_Drawn)
qed


text \<open>
  Claim C10. After the scene build the opaque list points at every item of
  \<^verbatim>\<open>mAllRitems\<close>, in the same order; the items carry the consecutive numbers 0 to 152 of
  their registration positions as \<^verbatim>\<open>ObjCBIndex\<close>; and the count that sizes and addresses
  the descriptor heap, \<^verbatim>\<open>(UINT)mOpaqueRitems.size()\<close>, is the capacity of the object arena of
  each of the three frame resources, \<^verbatim>\<open>(UINT)mAllRitems.size()\<close>.
\<close>

theorem scene_build_registration:
  fixes W :: "nat \<Rightarrow> nat \<Rightarrow> 'a::{zero,one} XMFLOAT4X4"
  shows "case Initialize W (ShapesApp pass0 fence0 :: ('a, 'p) ShapesApp) of
           Inl err \<Rightarrow> False
         | Inr app \<Rightarrow>
             map (\<lambda>p. mAllRitems app ! p) (mOpaqueRitems app) = mAllRitems app \<and>
             mOpaqueRitems app = [0..<length (mAllRitems app)] \<and>
             map (\<lambda>e. unat (ObjCBIndex e)) (mAllRitems app) = [0..<length (mAllRitems app)] \<and>
             length (mAllRitems app) = 153 \<and>
             length (mOpaqueRitems app) = length (mAllRitems app) \<and>
             length (mFrameResources app) = 3 \<and>
             list_all (\<lambda>fr. length (ObjectCB fr) =
                             unat (word_of_nat (length (mOpaqueRitems app)) :: UINT))
               (mFrameResources app) \<and>
             length (mCbvHeap app) = 3 * (length (mOpaqueRitems app) + 1)"
proof -
  obtain app :: "('a, 'p) ShapesApp"
    where init: "Initialize W (ShapesApp pass0 fence0) = Inr app"
      and laid: "LaidOut app" and len: "length (mAllRitems app) = 153"
      and heap: "length (mCbvHeap app) = 462"
    using Initialize_ok [of W pass0 fence0] by blast
  have opaque: "mOpaqueRitems app = [0..<length (mAllRitems app)]"
    using laid by (simp add: LaidOut_def)
  have deref: "map (\<lambda>p. mAllRitems app ! p) [0..<length (mAllRitems app)] = mAllRitems app"
    by (rule map_nth)
  have u153: "unat (153 :: UINT) = 153" by simp
  have arenas: "list_all (\<lambda>fr. length (ObjectCB fr) = 153) (mFrameResources app)"
    using laid len by (simp add: LaidOut_def list_all_length)
  show ?thesis
    using opaque deref LaidOut_index [OF laid] LaidOut_frames [OF laid] len heap arenas u153
    by (simp add: init)
qed

lemma UpdateObjectCBs_loop_items:
  "UpdateObjectCBs_loop es cb = Inr (es', cb') \<Longrightarrow> es' = map Decrement es"
proof (induction es arbitrary: cb es' cb')
  case Nil
  then show ?case by simp
next
  case (Cons e es)
  show ?case
  proof (cases "0 < NumFramesDirty e")
    case True
    then show ?thesis
      using Cons.prems Cons.IH
      by (auto simp: Let_def Decrement_pos split: sum.splits)
  next
    case False
    then show ?thesis
      using Cons.prems Cons.IH
      by (auto simp: Decrement_clean split: sum.splits)
  qed
qed

lemma UpdateObjectCBs_items:
  "UpdateObjectCBs app = Inr app' \<Longrightarrow> mAllRitems app' = map Decrement (mAllRitems app)"
  by (auto simp: UpdateObjectCBs_def Let_def UpdateObjectCBs_loop_items
           split: option.splits if_splits sum.splits)

lemma Bounded_Decrement: "Bounded e \<Longrightarrow> Bounded (Decrement e)"
  by (auto simp: Bounded_def Decrement_def)

lemma reachable_Bounded: "reachable app \<Longrightarrow> list_all Bounded (mAllRitems app)"
proof (induction rule: reachable.induct)
  case (init W pass0 fence0 app)
  then show ?case
    using Initialize_ok [of W pass0 fence0]
    by (auto simp: list_all_length Bounded_def gNumFrameResources_def)
next
  case (update app inp app')
  have "LaidOut app" using update.hyps(1) by (rule reachable_LaidOut)
  then have "app' = Updated (PassConstants inp) app"
    using update.hyps(2) by (auto simp: Update_LaidOut split: if_splits)
  then show ?case
    using update.IH by (simp add: Updated_def Let_def list_all_length Bounded_Decrement)
next
  case (draw app app')
  have laid: "LaidOut app" using draw.hyps(1) by (rule reachable_LaidOut)
  have "app' = Drawn app"
    using draw.hyps(2) laid
    by (cases "mCurrFrameResource app = None") (auto simp: Draw_null Draw_LaidOut)
  then show ?case using draw.IH by (simp add: Drawn_def Let_def)
qed

text \<open>
  Claim C9. In every state the program reaches, every item's \<^verbatim>\<open>NumFramesDirty\<close> is between
  0 and 3. A new item starts at \<open>gNumFrameResources = 3\<close>, and a call of \<^verbatim>\<open>UpdateObjectCBs\<close>
  that returns has lowered each positive count by exactly one and left each zero count
  alone.
\<close>

theorem dirty_count_in_range:
  fixes app :: "('a::{zero,one}, 'p) ShapesApp"
  assumes "reachable app"
  shows "list_all (\<lambda>e. 0 \<le> NumFramesDirty e \<and> NumFramesDirty e \<le> 3) (mAllRitems app) \<and>
         NumFramesDirty (RenderItem :: 'a RenderItem) = 3 \<and>
         (\<forall>app'. UpdateObjectCBs app = Inr app' \<longrightarrow>
            map NumFramesDirty (mAllRitems app') =
            map (\<lambda>e. if 0 < NumFramesDirty e then NumFramesDirty e - 1 else NumFramesDirty e)
              (mAllRitems app))"
proof -
  have "list_all (\<lambda>e. 0 \<le> NumFramesDirty e \<and> NumFramesDirty e \<le> 3) (mAllRitems app)"
    using reachable_Bounded [OF assms] by (simp add: list_all_iff Bounded_def gNumFrameResources_def)
  moreover have "NumFramesDirty (RenderItem :: 'a RenderItem) = 3"
    by (simp add: RenderItem_def gNumFrameResources_def)
  moreover have "map NumFramesDirty (map Decrement es) =
      map (\<lambda>e. if 0 < NumFramesDirty e then NumFramesDirty e - 1 else NumFramesDirty e) es"
    for es :: "'a RenderItem list"
    by (simp add: Decrement_def)
  ultimately show ?thesis by (auto dest: UpdateObjectCBs_items)
qed

theorem dirty_count_in_range_witness:
  "\<exists>app :: (int, nat) ShapesApp.
     Initialize (\<lambda>l i. Identity4x4) (ShapesApp 0 0) = Inr app \<and> reachable app \<and>
     list_all (\<lambda>e. 0 \<le> NumFramesDirty e \<and> NumFramesDirty e \<le> 3) (mAllRitems app) \<and>
     length (mAllRitems app) = 153"
proof -
  obtain app :: "(int, nat) ShapesApp"
    where init: "Initialize (\<lambda>l i. Identity4x4) (ShapesApp 0 0) = Inr app"
      and len: "length (mAllRitems app) = 153"
    using Initialize_ok [of "\<lambda>l i. Identity4x4 :: int XMFLOAT4X4" "0::nat" 0] by blast
  have r: "reachable app" using init by (rule reachable.init)
  show ?thesis using init r len dirty_count_in_range [OF r] by blast
qed

lemma UpdateObjectCBs_LaidOut:
  assumes "LaidOut app"
  shows "UpdateObjectCBs app = Inl NullFrameResource \<or> (\<exists>app'. UpdateObjectCBs app = Inr app')"
proof (cases "mCurrFrameResource app")
  case None
  then show ?thesis by (simp add: UpdateObjectCBs_def)
next
  case (Some k)
  then have k: "k = nat (mCurrFrameResourceIndex app)" using assms by (simp add: LaidOut_def)
  then have k3: "k < 3" using assms by (auto simp: LaidOut_def gNumFrameResources_def)
  have "\<forall>e\<in>set (mAllRitems app). unat (ObjCBIndex e) < length (ObjectCB (mFrameResources app ! k))"
    using LaidOut_in_range [OF assms] LaidOut_arena [OF assms k3] by simp
  then show ?thesis
    using Some k3 LaidOut_frames [OF assms]
    by (simp add: UpdateObjectCBs_def UpdateObjectCBs_loop_eq Let_def)
qed

lemma UpdateMainPassCB_LaidOut:
  assumes "LaidOut app"
  shows "UpdateMainPassCB pass app = Inl NullFrameResource \<or> (\<exists>app'. UpdateMainPassCB pass app = Inr app')"
proof (cases "mCurrFrameResource app")
  case None
  then show ?thesis by (simp add: UpdateMainPassCB_def)
next
  case (Some k)
  then have k: "k = nat (mCurrFrameResourceIndex app)" using assms by (simp add: LaidOut_def)
  then have k3: "k < 3" using assms by (auto simp: LaidOut_def gNumFrameResources_def)
  have "PassCB (mFrameResources app ! k) \<noteq> []"
    using LaidOut_arena [OF assms k3] by auto
  then show ?thesis
    using Some k3 LaidOut_frames [OF assms]
    by (simp add: UpdateMainPassCB_def CopyData_def Let_def)
qed

text \<open>
  Claim C6. In every state the program reaches, no arena write is out of range. Each frame
  resource's object arena has one record per item of \<^verbatim>\<open>mAllRitems\<close> and its pass arena has
  one record; every item's \<^verbatim>\<open>ObjCBIndex\<close> is below the item count; so neither
  \<^verbatim>\<open>UpdateObjectCBs\<close>, which writes at \<^verbatim>\<open>ObjCBIndex\<close>, nor \<^verbatim>\<open>UpdateMainPassCB\<close>, which writes
  at 0, nor \<^verbatim>\<open>Update\<close> as a whole ends in the capacity violation of \<^verbatim>\<open>CopyData\<close>.
\<close>

theorem arena_writes_within_capacity:
  fixes app :: "('a::{zero,one}, 'p) ShapesApp"
  assumes "reachable app"
  shows "Update inp app \<noteq> Inl CapacityViolation \<and>
         UpdateObjectCBs app \<noteq> Inl CapacityViolation \<and>
         UpdateMainPassCB pass app \<noteq> Inl CapacityViolation \<and>
         list_all (\<lambda>fr. length (ObjectCB fr) = length (mAllRitems app) \<and> length (PassCB fr) = 1)
           (mFrameResources app) \<and>
         list_all (\<lambda>e. unat (ObjCBIndex e) < length (mAllRitems app)) (mAllRitems app)"
proof -
  have laid: "LaidOut app" using assms by (rule reachable_LaidOut)
  have "Update inp app \<noteq> Inl CapacityViolation"
    by (simp add: Update_LaidOut [OF laid])
  moreover have "UpdateObjectCBs app \<noteq> Inl CapacityViolation"
    using UpdateObjectCBs_LaidOut [OF laid] by auto
  moreover have "UpdateMainPassCB pass app \<noteq> Inl CapacityViolation"
    using UpdateMainPassCB_LaidOut [OF laid, of pass] by auto
  moreover have "list_all (\<lambda>fr. length (ObjectCB fr) = length (mAllRitems app) \<and> length (PassCB fr) = 1)
           (mFrameResources app)"
    using laid by (simp add: LaidOut_def)
  moreover have "list_all (\<lambda>e. unat (ObjCBIndex e) < length (mAllRitems app)) (mAllRitems app)"
    using LaidOut_in_range [OF laid] by (simp add: list_all_iff)
  ultimately show ?thesis by simp
qed

theorem arena_writes_within_capacity_witness:
  "\<exists>app :: (int, nat) ShapesApp.
     Initialize (\<lambda>l i. Identity4x4) (ShapesApp 0 0) = Inr app \<and> reachable app \<and>
     Update \<lparr> CompletedValue = 0, FenceProgress = [], PassConstants = 7 \<rparr> app
       \<noteq> Inl CapacityViolation \<and>
     list_all (\<lambda>fr. length (ObjectCB fr) = 153 \<and> length (PassCB fr) = 1) (mFrameResources app) \<and>
     list_all (\<lambda>e. unat (ObjCBIndex e) < 153) (mAllRitems app)"
proof -
  obtain app :: "(int, nat) ShapesApp"
    where init: "Initialize (\<lambda>l i. Identity4x4) (ShapesApp 0 0) = Inr app"
      and len: "length (mAllRitems app) = 153"
    using Initialize_ok [of "\<lambda>l i. Identity4x4 :: int XMFLOAT4X4" "0::nat" 0] by blast
  have r: "reachable app" using init by (rule reachable.init)
  show ?thesis
    using init r len
      arena_writes_within_capacity [OF r, of "\<lparr> CompletedValue = 0, FenceProgress = [], PassConstants = 7 \<rparr>" 7]
    by auto
qed

section \<open>Produced frames\<close>

lemma Updated_current [simp]:
  "mCurrFrameResource (Updated pass app) = Some (NextFrameResource app)"
  "mCurrFrameResourceIndex (Updated pass app) = int (NextFrameResource app)"
  "mAllRitems (Updated pass app) = map Decrement (mAllRitems app)"
  "mCurrentFence (Updated pass app) = mCurrentFence app"
  by (simp_all add: Updated_def Let_def)

lemma Frame_LaidOut:
  assumes "LaidOut app"
  shows "Frame inp app =
     (if FenceNotReached (CompletedValue inp) (mFrameResources app ! NextFrameResource app) \<and>
         WaitForSingleObject (Fence (mFrameResources app ! NextFrameResource app)) (FenceProgress inp) = None
      then Inl WaitNeverResolves
      else Inr (Drawn (Updated (PassConstants inp) app)))"
  using Draw_LaidOut [OF LaidOut_Updated [OF assms], of "PassConstants inp"]
  by (simp add: Frame_def Update_LaidOut [OF assms])

lemma LaidOut_next: "LaidOut app \<Longrightarrow> NextFrameResource app < 3"
  by (rule NextFrameResource_less) (simp add: LaidOut_def)

lemma Frame_result:
  assumes laid: "LaidOut app" and frame: "Frame inp app = Inr app'"
  shows "app' = Drawn (Updated (PassConstants inp) app)"
  using frame by (simp add: Frame_LaidOut [OF laid] split: if_splits)

lemma Produced_fields:
  fixes app :: "('a, 'p) ShapesApp" and pass :: 'p
  assumes laid: "LaidOut app"
  defines "app' \<equiv> Drawn (Updated pass app)"
  shows "LaidOut app'"
    and "mCurrFrameResourceIndex app' = int (NextFrameResource app)"
    and "mAllRitems app' = map Decrement (mAllRitems app)"
    and "mCurrentFence app' = mCurrentFence app + 1"
    and "length (mFrameResources app') = 3"
    and "\<And>k. k < 3 \<Longrightarrow> Fence (mFrameResources app' ! k) =
           (if k = NextFrameResource app then mCurrentFence app + 1
            else Fence (mFrameResources app ! k))"
    and "\<And>k. k < 3 \<Longrightarrow> ObjectCB (mFrameResources app' ! k) =
           (if k = NextFrameResource app
            then fold PushDirty (mAllRitems app) (ObjectCB (mFrameResources app ! k))
            else ObjectCB (mFrameResources app ! k))"
    and "\<And>k. k < 3 \<Longrightarrow> k \<noteq> NextFrameResource app \<Longrightarrow>
           mFrameResources app' ! k = mFrameResources app ! k"
proof -
  have n: "NextFrameResource app < 3" by (rule LaidOut_next [OF laid])
  have len: "length (mFrameResources app) = 3" by (rule LaidOut_frames [OF laid])
  show "LaidOut app'"
    unfolding app'_def by (intro LaidOut_Drawn LaidOut_Updated laid)
  show "mCurrFrameResourceIndex app' = int (NextFrameResource app)"
    by (simp add: app'_def Drawn_def Let_def)
  show "mAllRitems app' = map Decrement (mAllRitems app)"
    by (simp add: app'_def Drawn_def Let_def)
  show "mCurrentFence app' = mCurrentFence app + 1"
    by (simp add: app'_def Drawn_def Let_def)
  show "length (mFrameResources app') = 3"
    using len by (simp add: app'_def Drawn_def Updated_def Let_def)
  show "Fence (mFrameResources app' ! k) =
           (if k = NextFrameResource app then mCurrentFence app + 1
            else Fence (mFrameResources app ! k))" if "k < 3" for k
    using that n len by (simp add: app'_def Drawn_def Updated_def Let_def nth_list_update)
  show "ObjectCB (mFrameResources app' ! k) =
           (if k = NextFrameResource app
            then fold PushDirty (mAllRitems app) (ObjectCB (mFrameResources app ! k))
            else ObjectCB (mFrameResources app ! k))" if "k < 3" for k
    using that n len by (simp add: app'_def Drawn_def Updated_def Let_def nth_list_update)
  show "mFrameResources app' ! k = mFrameResources app ! k"
    if "k < 3" and "k \<noteq> NextFrameResource app" for k
    using that n len by (simp add: app'_def Drawn_def Updated_def Let_def nth_list_update)
qed

lemma Produced_slot:
  assumes laid: "LaidOut app" and i: "i < length (mAllRitems app)" and k: "k < 3"
  shows "ObjectCB (mFrameResources (Drawn (Updated pass app)) ! k) ! i =
         (if k = NextFrameResource app \<and> 0 < NumFramesDirty (mAllRitems app ! i)
          then Some (ObjectConstants (XMMatrixTranspose (World (mAllRitems app ! i))))
          else ObjectCB (mFrameResources app ! k) ! i)"
proof -
  let ?e = "mAllRitems app ! i"
  have idx: "unat (ObjCBIndex ?e) = i" by (rule LaidOut_index_nth [OF laid i])
  have mem: "?e \<in> set (mAllRitems app)" using i by simp
  have dist: "distinct (map (\<lambda>e. unat (ObjCBIndex e)) (mAllRitems app))"
    by (simp add: LaidOut_index [OF laid])
  have cap: "unat (ObjCBIndex ?e) < length (ObjectCB (mFrameResources app ! k))"
    using LaidOut_arena [OF laid k] i idx by simp
  have push: "fold PushDirty (mAllRitems app) (ObjectCB (mFrameResources app ! k)) ! i =
      (if 0 < NumFramesDirty ?e then Some (ObjectConstants (XMMatrixTranspose (World ?e)))
       else ObjectCB (mFrameResources app ! k) ! i)"
    using fold_PushDirty_nth [OF dist mem cap] by (simp only: idx)
  show ?thesis
    using push by (auto simp add: Produced_fields(7) [OF laid k])
qed

lemma NextFrameResource_Produced:
  assumes "LaidOut app"
  shows "NextFrameResource (Drawn (Updated pass app)) = (NextFrameResource app + 1) mod 3"
  using NextFrameResource_eq [of "Drawn (Updated pass app)"]
  by (simp add: Produced_fields(2) [OF assms])

lemma three_slots:
  assumes "n < 3" and "k < (3::nat)"
  shows "k = n \<or> k = (n + 1) mod 3 \<or> k = ((n + 1) mod 3 + 1) mod 3"
proof -
  have "n = 0 \<or> n = 1 \<or> n = 2" using assms(1) by arith
  moreover have "k = 0 \<or> k = 1 \<or> k = 2" using assms(2) by arith
  ultimately show ?thesis by auto
qed

lemma three_frames_push:
  assumes laid: "LaidOut app" and i: "i < length (mAllRitems app)"
    and dirty: "NumFramesDirty (mAllRitems app ! i) = 3"
    and run: "Run [in1, in2, in3] app = Inr app'"
  shows "NumFramesDirty (mAllRitems app' ! i) = 0"
    and "World (mAllRitems app' ! i) = World (mAllRitems app ! i)"
    and "ObjCBIndex (mAllRitems app' ! i) = ObjCBIndex (mAllRitems app ! i)"
    and "length (mFrameResources app') = 3"
    and "\<And>k. k < 3 \<Longrightarrow> ObjectCB (mFrameResources app' ! k) ! i =
           Some (ObjectConstants (XMMatrixTranspose (World (mAllRitems app ! i))))"
proof -
  let ?w = "Some (ObjectConstants (XMMatrixTranspose (World (mAllRitems app ! i))))"
  obtain a1 a2 where f1: "Frame in1 app = Inr a1" and f2: "Frame in2 a1 = Inr a2"
    and f3: "Frame in3 a2 = Inr app'"
    using run by (auto split: sum.splits)
  have a1: "a1 = Drawn (Updated (PassConstants in1) app)" by (rule Frame_result [OF laid f1])
  have laid1: "LaidOut a1" unfolding a1 by (rule Produced_fields(1) [OF laid])
  have a2: "a2 = Drawn (Updated (PassConstants in2) a1)" by (rule Frame_result [OF laid1 f2])
  have laid2: "LaidOut a2" unfolding a2 by (rule Produced_fields(1) [OF laid1])
  have a3: "app' = Drawn (Updated (PassConstants in3) a2)" by (rule Frame_result [OF laid2 f3])
  have items1: "mAllRitems a1 = map Decrement (mAllRitems app)"
    unfolding a1 by (rule Produced_fields(3) [OF laid])
  have items2: "mAllRitems a2 = map Decrement (mAllRitems a1)"
    unfolding a2 by (rule Produced_fields(3) [OF laid1])
  have items3: "mAllRitems app' = map Decrement (mAllRitems a2)"
    unfolding a3 by (rule Produced_fields(3) [OF laid2])
  have i1: "i < length (mAllRitems a1)" and i2: "i < length (mAllRitems a2)"
    using i by (simp_all add: items1 items2)
  have e1: "mAllRitems a1 ! i = Decrement (mAllRitems app ! i)" using i by (simp add: items1)
  have e2: "mAllRitems a2 ! i = Decrement (mAllRitems a1 ! i)" using i1 by (simp add: items2)
  have e3: "mAllRitems app' ! i = Decrement (mAllRitems a2 ! i)" using i2 by (simp add: items3)
  have d1: "NumFramesDirty (mAllRitems a1 ! i) = 2" using dirty by (simp add: e1 Decrement_def)
  have d2: "NumFramesDirty (mAllRitems a2 ! i) = 1" using d1 by (simp add: e2 Decrement_def)
  show "NumFramesDirty (mAllRitems app' ! i) = 0" using d2 by (simp add: e3 Decrement_def)
  have w1: "World (mAllRitems a1 ! i) = World (mAllRitems app ! i)" by (simp add: e1)
  have w2: "World (mAllRitems a2 ! i) = World (mAllRitems app ! i)" by (simp add: e2 w1)
  show "World (mAllRitems app' ! i) = World (mAllRitems app ! i)" by (simp add: e3 w2)
  show "ObjCBIndex (mAllRitems app' ! i) = ObjCBIndex (mAllRitems app ! i)"
    by (simp add: e3 e2 e1)
  show "length (mFrameResources app') = 3" unfolding a3 by (rule Produced_fields(5) [OF laid2])
  let ?n1 = "NextFrameResource app"
  have n1: "?n1 < 3" by (rule LaidOut_next [OF laid])
  have n2: "NextFrameResource a1 = (?n1 + 1) mod 3"
    unfolding a1 by (rule NextFrameResource_Produced [OF laid])
  have n3: "NextFrameResource a2 = ((?n1 + 1) mod 3 + 1) mod 3"
    unfolding a2 using NextFrameResource_Produced [OF laid1] n2 by simp
  show "ObjectCB (mFrameResources app' ! k) ! i = ?w" if k: "k < 3" for k
  proof -
    have s1: "ObjectCB (mFrameResources a1 ! k) ! i =
        (if k = ?n1 then ?w else ObjectCB (mFrameResources app ! k) ! i)"
      unfolding a1 using Produced_slot [OF laid i k] dirty by simp
    have s2: "ObjectCB (mFrameResources a2 ! k) ! i =
        (if k = (?n1 + 1) mod 3 then ?w else ObjectCB (mFrameResources a1 ! k) ! i)"
      unfolding a2 using Produced_slot [OF laid1 i1 k] d1 w1 n2 by simp
    have s3: "ObjectCB (mFrameResources app' ! k) ! i =
        (if k = ((?n1 + 1) mod 3 + 1) mod 3 then ?w else ObjectCB (mFrameResources a2 ! k) ! i)"
      unfolding a3 using Produced_slot [OF laid2 i2 k] d2 w2 n3 by simp
    show ?thesis using three_slots [OF n1 k] s1 s2 s3 by auto
  qed
qed


lemma UpdateWaits_LaidOut:
  assumes "LaidOut app"
  shows "UpdateWaits inp app \<longleftrightarrow>
         FenceNotReached (CompletedValue inp) (mFrameResources app ! NextFrameResource app)"
  by (simp add: UpdateWaits_def CycleFrameResource_LaidOut [OF assms])

lemma Update_no_wait:
  assumes "LaidOut app"
    and "\<not> FenceNotReached (CompletedValue inp) (mFrameResources app ! NextFrameResource app)"
  shows "Update inp app = Inr (Updated (PassConstants inp) app)"
  using assms(2) by (simp add: Update_LaidOut [OF assms(1)])

lemma Frame_no_wait:
  assumes "LaidOut app"
    and "\<not> FenceNotReached (CompletedValue inp) (mFrameResources app ! NextFrameResource app)"
  shows "Frame inp app = Inr (Drawn (Updated (PassConstants inp) app))"
  using assms(2) by (simp add: Frame_LaidOut [OF assms(1)])

lemma completed_all: "\<not> FenceNotReached (- 1) fr"
  by (simp add: FenceNotReached_def)

lemma next_slot_differs:
  assumes "n < (3::nat)"
  shows "(n + 1) mod 3 \<noteq> n" and "((n + 1) mod 3 + 1) mod 3 \<noteq> n"
    and "((n + 1) mod 3 + 1) mod 3 \<noteq> (n + 1) mod 3"
  using assms by presburger+

lemma priming:
  fixes app :: "('a, 'p) ShapesApp" and pa pb :: 'p
  assumes laid: "LaidOut app"
    and zero: "list_all (\<lambda>fr. Fence fr = 0) (mFrameResources app)"
  defines "a1 \<equiv> Drawn (Updated pa app)"
  defines "a2 \<equiv> Drawn (Updated pb a1)"
  shows "Fence (mFrameResources app ! NextFrameResource app) = 0"
    and "Fence (mFrameResources a1 ! NextFrameResource a1) = 0"
    and "Fence (mFrameResources a2 ! NextFrameResource a2) = 0"
    and "LaidOut a1" and "LaidOut a2"
proof -
  let ?n = "NextFrameResource app"
  have n: "?n < 3" by (rule LaidOut_next [OF laid])
  have z: "Fence (mFrameResources app ! k) = 0" if "k < 3" for k
    using zero that LaidOut_frames [OF laid] by (simp add: list_all_length)
  show "Fence (mFrameResources app ! ?n) = 0" by (rule z [OF n])
  show laid1: "LaidOut a1" unfolding a1_def by (rule Produced_fields(1) [OF laid])
  show laid2: "LaidOut a2" unfolding a2_def by (rule Produced_fields(1) [OF laid1])
  have n1: "NextFrameResource a1 = (?n + 1) mod 3"
    unfolding a1_def by (rule NextFrameResource_Produced [OF laid])
  have n2: "NextFrameResource a2 = ((?n + 1) mod 3 + 1) mod 3"
    unfolding a2_def using NextFrameResource_Produced [OF laid1] n1 by simp
  have f1: "Fence (mFrameResources a1 ! k) = (if k = ?n then mCurrentFence app + 1 else 0)"
    if "k < 3" for k
    unfolding a1_def using Produced_fields(6) [OF laid that] z [OF that] by simp
  have k1: "(?n + 1) mod 3 < 3" by simp
  show "Fence (mFrameResources a1 ! NextFrameResource a1) = 0"
    using f1 [OF k1] next_slot_differs(1) [OF n] by (simp add: n1)
  have k2: "((?n + 1) mod 3 + 1) mod 3 < 3" by simp
  have "Fence (mFrameResources a2 ! (((?n + 1) mod 3 + 1) mod 3)) =
        Fence (mFrameResources a1 ! (((?n + 1) mod 3 + 1) mod 3))"
    unfolding a2_def
    using Produced_fields(6) [OF laid1 k2] next_slot_differs(3) [OF n] by (simp add: n1)
  then show "Fence (mFrameResources a2 ! NextFrameResource a2) = 0"
    using f1 [OF k2] next_slot_differs(2) [OF n] by (simp add: n2)
qed

lemma LaidOut_SetWorld:
  assumes "LaidOut app"
  shows "LaidOut (SetWorld i w app)"
proof -
  have "map ObjCBIndex ((mAllRitems app)
          [i := (mAllRitems app ! i) \<lparr> World := w, NumFramesDirty := gNumFrameResources \<rparr>]) =
        map ObjCBIndex (mAllRitems app)"
  proof (cases "i < length (mAllRitems app)")
    case True
    then show ?thesis by (simp add: map_update list_update_same_conv)
  next
    case False
    then show ?thesis by (simp add: list_update_beyond)
  qed
  then show ?thesis using assms by (simp add: LaidOut_def SetWorld_def)
qed

text \<open>
  Claim C1. Dirty propagation: take a laid-out state (the layout \<^verbatim>\<open>Initialize\<close> establishes
  and every frame keeps) in which an item's dirty count is \<open>gNumFrameResources\<close>, as it is
  right after the item is created and as a transform mutation has to set it. When the next
  three frames are produced, the object arena of each of the three frame resources holds,
  at the item's \<^verbatim>\<open>ObjCBIndex\<close>, the transpose of the item's world matrix, the matrix itself is
  unchanged, and the item's dirty count is 0.
\<close>

theorem dirty_propagation_complete:
  assumes "LaidOut app" and "i < length (mAllRitems app)"
    and "NumFramesDirty (mAllRitems app ! i) = gNumFrameResources"
    and "Run [in1, in2, in3] app = Inr app'"
  shows "length (mFrameResources app') = 3 \<and>
         list_all (\<lambda>fr. ObjectCB fr ! unat (ObjCBIndex (mAllRitems app ! i)) =
                         Some (ObjectConstants (XMMatrixTranspose (World (mAllRitems app ! i)))))
           (mFrameResources app') \<and>
         NumFramesDirty (mAllRitems app' ! i) = 0 \<and>
         World (mAllRitems app' ! i) = World (mAllRitems app ! i) \<and>
         ObjCBIndex (mAllRitems app' ! i) = ObjCBIndex (mAllRitems app ! i)"
proof -
  have dirty: "NumFramesDirty (mAllRitems app ! i) = 3"
    using assms(3) by (simp add: gNumFrameResources_def)
  note push = three_frames_push [OF assms(1,2) dirty assms(4)]
  have "unat (ObjCBIndex (mAllRitems app ! i)) = i"
    by (rule LaidOut_index_nth [OF assms(1,2)])
  then show ?thesis
    using push by (simp add: list_all_length)
qed

theorem dirty_propagation_complete_witness:
  "\<exists>(app :: (int, nat) ShapesApp) app'.
     Initialize (\<lambda>l i. Identity4x4) (ShapesApp 0 0) = Inr app \<and>
     NumFramesDirty (mAllRitems app ! 0) = 3 \<and>
     Run [\<lparr> CompletedValue = 0, FenceProgress = [], PassConstants = 10 \<rparr>,
          \<lparr> CompletedValue = 0, FenceProgress = [], PassConstants = 20 \<rparr>,
          \<lparr> CompletedValue = 0, FenceProgress = [], PassConstants = 30 \<rparr>] app = Inr app' \<and>
     length (mFrameResources app') = 3 \<and>
     list_all (\<lambda>fr. ObjectCB fr ! 0 =
                     Some (ObjectConstants (XMMatrixTranspose (World (mAllRitems app ! 0)))))
       (mFrameResources app') \<and>
     NumFramesDirty (mAllRitems app' ! 0) = 0"
proof -
  let ?in1 = "\<lparr> CompletedValue = 0, FenceProgress = [], PassConstants = 10::nat \<rparr>"
  let ?in2 = "\<lparr> CompletedValue = 0, FenceProgress = [], PassConstants = 20::nat \<rparr>"
  let ?in3 = "\<lparr> CompletedValue = 0, FenceProgress = [], PassConstants = 30::nat \<rparr>"
  obtain app :: "(int, nat) ShapesApp"
    where init: "Initialize (\<lambda>l i. Identity4x4) (ShapesApp 0 0) = Inr app"
      and laid: "LaidOut app" and len: "length (mAllRitems app) = 153"
      and fresh: "list_all (\<lambda>e. NumFramesDirty e = gNumFrameResources) (mAllRitems app)"
      and zero: "list_all (\<lambda>fr. Fence fr = 0) (mFrameResources app)"
    using Initialize_ok [of "\<lambda>l i. Identity4x4 :: int XMFLOAT4X4" "0::nat" 0] by blast
  have i: "0 < length (mAllRitems app)" using len by simp
  have dirty: "NumFramesDirty (mAllRitems app ! 0) = gNumFrameResources"
    using fresh i by (simp add: list_all_length)
  note p = priming [OF laid zero]
  let ?a1 = "Drawn (Updated 10 app)"
  let ?a2 = "Drawn (Updated 20 ?a1)"
  let ?a3 = "Drawn (Updated 30 ?a2)"
  have f1: "Frame ?in1 app = Inr ?a1"
    using Frame_no_wait [OF laid, of ?in1] p(1) by (simp add: FenceNotReached_def)
  have f2: "Frame ?in2 ?a1 = Inr ?a2"
    using Frame_no_wait [OF p(4), of ?in2] p(2) by (simp add: FenceNotReached_def)
  have f3: "Frame ?in3 ?a2 = Inr ?a3"
    using Frame_no_wait [OF p(5), of ?in3] p(3) by (simp add: FenceNotReached_def)
  have run: "Run [?in1, ?in2, ?in3] app = Inr ?a3"
    by (simp add: f1 f2 f3)
  have idx: "unat (ObjCBIndex (mAllRitems app ! 0)) = 0"
    by (rule LaidOut_index_nth [OF laid i])
  show ?thesis
    using init dirty run dirty_propagation_complete [OF laid i dirty run]
    by (auto simp: idx gNumFrameResources_def)
qed

text \<open>
  Claim C5. Priming: from a laid-out state in which every frame resource's \<^verbatim>\<open>Fence\<close> is 0,
  as \<^verbatim>\<open>Initialize\<close> leaves it, each of the first three calls of \<^verbatim>\<open>Update\<close> selects a frame
  resource whose \<^verbatim>\<open>Fence\<close> is still 0, does not enter the wait, and returns, whatever the
  fence reports.
\<close>

theorem priming_frames_never_block:
  assumes "LaidOut app" and "list_all (\<lambda>fr. Fence fr = 0) (mFrameResources app)"
  shows "\<exists>u1 a1 u2 a2 u3 a3.
           Update in1 app = Inr u1 \<and> Draw u1 = Inr a1 \<and>
           Update in2 a1 = Inr u2 \<and> Draw u2 = Inr a2 \<and>
           Update in3 a2 = Inr u3 \<and> Draw u3 = Inr a3 \<and>
           \<not> UpdateWaits in1 app \<and> \<not> UpdateWaits in2 a1 \<and> \<not> UpdateWaits in3 a2 \<and>
           Fence (mFrameResources app ! NextFrameResource app) = 0 \<and>
           Fence (mFrameResources a1 ! NextFrameResource a1) = 0 \<and>
           Fence (mFrameResources a2 ! NextFrameResource a2) = 0"
proof -
  note p = priming [OF assms]
  let ?u1 = "Updated (PassConstants in1) app"
  let ?a1 = "Drawn ?u1"
  let ?u2 = "Updated (PassConstants in2) ?a1"
  let ?a2 = "Drawn ?u2"
  let ?u3 = "Updated (PassConstants in3) ?a2"
  have w1: "\<not> FenceNotReached (CompletedValue in1) (mFrameResources app ! NextFrameResource app)"
    using p(1) by (simp add: FenceNotReached_def)
  have w2: "\<not> FenceNotReached (CompletedValue in2) (mFrameResources ?a1 ! NextFrameResource ?a1)"
    using p(2) by (simp add: FenceNotReached_def)
  have w3: "\<not> FenceNotReached (CompletedValue in3) (mFrameResources ?a2 ! NextFrameResource ?a2)"
    using p(3) by (simp add: FenceNotReached_def)
  have "Update in1 app = Inr ?u1" by (rule Update_no_wait [OF assms(1) w1])
  moreover have "Draw ?u1 = Inr ?a1"
    by (rule Draw_LaidOut [OF LaidOut_Updated [OF assms(1)]]) simp
  moreover have "Update in2 ?a1 = Inr ?u2" by (rule Update_no_wait [OF p(4) w2])
  moreover have "Draw ?u2 = Inr ?a2"
    by (rule Draw_LaidOut [OF LaidOut_Updated [OF p(4)]]) simp
  moreover have "Update in3 ?a2 = Inr ?u3" by (rule Update_no_wait [OF p(5) w3])
  moreover have "Draw ?u3 = Inr (Drawn ?u3)"
    by (rule Draw_LaidOut [OF LaidOut_Updated [OF p(5)]]) simp
  moreover have "\<not> UpdateWaits in1 app" using w1 by (simp add: UpdateWaits_LaidOut [OF assms(1)])
  moreover have "\<not> UpdateWaits in2 ?a1" using w2 by (simp add: UpdateWaits_LaidOut [OF p(4)])
  moreover have "\<not> UpdateWaits in3 ?a2" using w3 by (simp add: UpdateWaits_LaidOut [OF p(5)])
  ultimately show ?thesis using p(1,2,3) by blast
qed

theorem priming_frames_never_block_witness:
  "\<exists>(app :: (int, nat) ShapesApp) u1 a1 u2 a2 u3 a3.
     Initialize (\<lambda>l i. Identity4x4) (ShapesApp 0 0) = Inr app \<and>
     list_all (\<lambda>fr. Fence fr = 0) (mFrameResources app) \<and>
     Update \<lparr> CompletedValue = 0, FenceProgress = [], PassConstants = 10 \<rparr> app = Inr u1 \<and>
     Draw u1 = Inr a1 \<and>
     Update \<lparr> CompletedValue = 0, FenceProgress = [], PassConstants = 20 \<rparr> a1 = Inr u2 \<and>
     Draw u2 = Inr a2 \<and>
     Update \<lparr> CompletedValue = 0, FenceProgress = [], PassConstants = 30 \<rparr> a2 = Inr u3 \<and>
     Draw u3 = Inr a3 \<and>
     \<not> UpdateWaits \<lparr> CompletedValue = 0, FenceProgress = [], PassConstants = 10 \<rparr> app \<and>
     \<not> UpdateWaits \<lparr> CompletedValue = 0, FenceProgress = [], PassConstants = 20 \<rparr> a1 \<and>
     \<not> UpdateWaits \<lparr> CompletedValue = 0, FenceProgress = [], PassConstants = 30 \<rparr> a2"
proof -
  obtain app :: "(int, nat) ShapesApp"
    where init: "Initialize (\<lambda>l i. Identity4x4) (ShapesApp 0 0) = Inr app"
      and laid: "LaidOut app"
      and zero: "list_all (\<lambda>fr. Fence fr = 0) (mFrameResources app)"
    using Initialize_ok [of "\<lambda>l i. Identity4x4 :: int XMFLOAT4X4" "0::nat" 0] by blast
  show ?thesis
    using init zero
      priming_frames_never_block [OF laid zero,
        of "\<lparr> CompletedValue = 0, FenceProgress = [], PassConstants = 10 \<rparr>"
           "\<lparr> CompletedValue = 0, FenceProgress = [], PassConstants = 20 \<rparr>"
           "\<lparr> CompletedValue = 0, FenceProgress = [], PassConstants = 30 \<rparr>"]
    by blast
qed

section \<open>Mutation, fence stamps and the wait\<close>

lemma SetWorld_item:
  assumes "i < length (mAllRitems app)"
  shows "NumFramesDirty (mAllRitems (SetWorld i w app) ! i) = gNumFrameResources"
    and "World (mAllRitems (SetWorld i w app) ! i) = w"
    and "ObjCBIndex (mAllRitems (SetWorld i w app) ! i) = ObjCBIndex (mAllRitems app ! i)"
    and "length (mAllRitems (SetWorld i w app)) = length (mAllRitems app)"
  using assms by (simp_all add: SetWorld_def)

lemma Frame_keeping_up:
  assumes "LaidOut app" and "CompletedValue inp = - 1"
  shows "Frame inp app = Inr (Drawn (Updated (PassConstants inp) app))"
  by (rule Frame_no_wait [OF assms(1)]) (simp add: assms(2) completed_all)

text \<open>
  Claim C8. Idempotent re-dirtying: a transform mutation, whatever the item's dirty count
  was (in particular while it is still positive), leaves the dirty count at exactly
  \<open>gNumFrameResources = 3\<close>; and when the next three frames are produced, the object arena
  of each of the three frame resources holds, at the item's slot, the transpose of the new
  matrix, none holds an earlier one, and the dirty count is 0.
\<close>

theorem redirty_converges_to_latest:
  assumes "LaidOut app" and "i < length (mAllRitems app)"
    and "Run [in1, in2, in3] (SetWorld i w app) = Inr app'"
  shows "NumFramesDirty (mAllRitems (SetWorld i w app) ! i) = 3 \<and>
         World (mAllRitems (SetWorld i w app) ! i) = w \<and>
         length (mFrameResources app') = 3 \<and>
         list_all (\<lambda>fr. ObjectCB fr ! unat (ObjCBIndex (mAllRitems app ! i)) =
                         Some (ObjectConstants (XMMatrixTranspose w)))
           (mFrameResources app') \<and>
         NumFramesDirty (mAllRitems app' ! i) = 0 \<and>
         World (mAllRitems app' ! i) = w"
proof -
  let ?app = "SetWorld i w app"
  have laid: "LaidOut ?app" by (rule LaidOut_SetWorld [OF assms(1)])
  note item = SetWorld_item [OF assms(2), of w]
  have i: "i < length (mAllRitems ?app)" using assms(2) item(4) by simp
  have dirty: "NumFramesDirty (mAllRitems ?app ! i) = 3"
    using item(1) by (simp add: gNumFrameResources_def)
  note push = three_frames_push [OF laid i dirty assms(3)]
  have "unat (ObjCBIndex (mAllRitems app ! i)) = i"
    by (rule LaidOut_index_nth [OF assms(1,2)])
  then show ?thesis
    using push dirty item(2) by (simp add: list_all_length)
qed

theorem redirty_converges_to_latest_witness:
  "\<exists>(app :: (int, nat) ShapesApp) a1 app'.
     Initialize (\<lambda>l i. Identity4x4) (ShapesApp 0 0) = Inr app \<and>
     Frame \<lparr> CompletedValue = - 1, FenceProgress = [], PassConstants = 10 \<rparr> app = Inr a1 \<and>
     NumFramesDirty (mAllRitems a1 ! 0) = 2 \<and>
     NumFramesDirty
       (mAllRitems (SetWorld 0 (XMFLOAT4X4 1 2 3 4  5 6 7 8  9 10 11 12  13 14 15 16) a1) ! 0) = 3 \<and>
     Run [\<lparr> CompletedValue = - 1, FenceProgress = [], PassConstants = 10 \<rparr>,
          \<lparr> CompletedValue = - 1, FenceProgress = [], PassConstants = 10 \<rparr>,
          \<lparr> CompletedValue = - 1, FenceProgress = [], PassConstants = 10 \<rparr>]
       (SetWorld 0 (XMFLOAT4X4 1 2 3 4  5 6 7 8  9 10 11 12  13 14 15 16) a1) = Inr app' \<and>
     list_all (\<lambda>fr. ObjectCB fr ! 0 =
                     Some (ObjectConstants (XMFLOAT4X4 1 5 9 13  2 6 10 14  3 7 11 15  4 8 12 16)))
       (mFrameResources app') \<and>
     NumFramesDirty (mAllRitems app' ! 0) = 0"
proof -
  let ?inp = "\<lparr> CompletedValue = - 1, FenceProgress = [], PassConstants = 10::nat \<rparr>"
  let ?w = "XMFLOAT4X4 1 2 3 4  5 6 7 8  9 10 11 12  13 14 15 (16::int)"
  obtain app :: "(int, nat) ShapesApp"
    where init: "Initialize (\<lambda>l i. Identity4x4) (ShapesApp 0 0) = Inr app"
      and laid: "LaidOut app" and len: "length (mAllRitems app) = 153"
      and fresh: "list_all (\<lambda>e. NumFramesDirty e = gNumFrameResources) (mAllRitems app)"
    using Initialize_ok [of "\<lambda>l i. Identity4x4 :: int XMFLOAT4X4" "0::nat" 0] by blast
  let ?a1 = "Drawn (Updated 10 app)"
  have f1: "Frame ?inp app = Inr ?a1"
    using Frame_keeping_up [OF laid, of ?inp] by simp
  have laid1: "LaidOut ?a1" by (rule Produced_fields(1) [OF laid])
  have items1: "mAllRitems ?a1 = map Decrement (mAllRitems app)"
    by (rule Produced_fields(3) [OF laid])
  have i1: "0 < length (mAllRitems ?a1)" using len by (simp add: items1)
  have "NumFramesDirty (mAllRitems app ! 0) = 3"
    using fresh len by (simp add: list_all_length gNumFrameResources_def)
  then have d1: "NumFramesDirty (mAllRitems ?a1 ! 0) = 2"
    using len by (simp add: items1 Decrement_def)
  let ?m = "SetWorld 0 ?w ?a1"
  have laidm: "LaidOut ?m" by (rule LaidOut_SetWorld [OF laid1])
  let ?b1 = "Drawn (Updated 10 ?m)"
  let ?b2 = "Drawn (Updated 10 ?b1)"
  let ?b3 = "Drawn (Updated 10 ?b2)"
  have lb1: "LaidOut ?b1" by (rule Produced_fields(1) [OF laidm])
  have lb2: "LaidOut ?b2" by (rule Produced_fields(1) [OF lb1])
  have g1: "Frame ?inp ?m = Inr ?b1" using Frame_keeping_up [OF laidm, of ?inp] by simp
  have g2: "Frame ?inp ?b1 = Inr ?b2" using Frame_keeping_up [OF lb1, of ?inp] by simp
  have g3: "Frame ?inp ?b2 = Inr ?b3" using Frame_keeping_up [OF lb2, of ?inp] by simp
  have run: "Run [?inp, ?inp, ?inp] ?m = Inr ?b3" by (simp add: g1 g2 g3)
  have idx: "unat (ObjCBIndex (mAllRitems ?a1 ! 0)) = 0"
    by (rule LaidOut_index_nth [OF laid1 i1])
  show ?thesis
    using init f1 d1 run redirty_converges_to_latest [OF laid1 i1 run]
    by (auto simp: idx)
qed


lemma fence_successor:
  fixes c :: UINT64
  assumes "unat c + 1 < 2 ^ 64"
  shows "unat (c + 1) = unat c + 1" and "c < c + 1" and "c + 1 \<noteq> 0"
proof -
  have "unat c + unat (1 :: UINT64) < 2 ^ LENGTH(64)" using assms by simp
  then have "unat (c + 1) = unat c + unat (1 :: UINT64)" by (simp only: unat_add_lem)
  then show u: "unat (c + 1) = unat c + 1" by simp
  then show "c < c + 1" by (simp add: word_less_nat_alt)
  show "c + 1 \<noteq> 0" using u by (metis Suc_eq_plus1 nat.simps(3) unat_0)
qed

lemma Stamps_Cons:
  assumes laid: "LaidOut app" and frame: "Frame inp app = Inr app'"
  shows "Stamps (inp # inps) app = (mCurrentFence app + 1) # Stamps inps app'"
    and "RetiredSlots (inp # inps) app = NextFrameResource app # RetiredSlots inps app'"
proof -
  have app': "app' = Drawn (Updated (PassConstants inp) app)"
    by (rule Frame_result [OF laid frame])
  have n: "NextFrameResource app < 3" by (rule LaidOut_next [OF laid])
  have idx: "nat (mCurrFrameResourceIndex app') = NextFrameResource app"
    unfolding app' by (simp add: Produced_fields(2) [OF laid])
  have "Fence (mFrameResources app' ! NextFrameResource app) = mCurrentFence app + 1"
    unfolding app' using Produced_fields(6) [OF laid n] by simp
  then show "Stamps (inp # inps) app = (mCurrentFence app + 1) # Stamps inps app'"
    by (simp add: frame idx)
  show "RetiredSlots (inp # inps) app = NextFrameResource app # RetiredSlots inps app'"
    by (simp add: frame idx)
qed

lemma stamps_increasing:
  assumes "LaidOut app" and "unat (mCurrentFence app) + length inps < 2 ^ 64"
  shows "sorted_wrt (<) (Stamps inps app) \<and> (\<forall>v\<in>set (Stamps inps app). mCurrentFence app < v)"
  using assms
proof (induction inps arbitrary: app)
  case Nil
  then show ?case by simp
next
  case (Cons inp inps)
  show ?case
  proof (cases "Frame inp app")
    case (Inl err)
    then show ?thesis by simp
  next
    case (Inr app')
    have app': "app' = Drawn (Updated (PassConstants inp) app)"
      by (rule Frame_result [OF Cons.prems(1) Inr])
    have laid': "LaidOut app'" unfolding app' by (rule Produced_fields(1) [OF Cons.prems(1)])
    have c': "mCurrentFence app' = mCurrentFence app + 1"
      unfolding app' by (rule Produced_fields(4) [OF Cons.prems(1)])
    have room: "unat (mCurrentFence app) + 1 < 2 ^ 64" using Cons.prems(2) by simp
    note succ = fence_successor [OF room]
    have "unat (mCurrentFence app') + length inps < 2 ^ 64"
      using Cons.prems(2) by (simp add: c' succ(1))
    then have ih: "sorted_wrt (<) (Stamps inps app')"
      "\<forall>v\<in>set (Stamps inps app'). mCurrentFence app + 1 < v"
      using Cons.IH [OF laid'] by (simp_all add: c')
    have "\<forall>v\<in>set (Stamps inps app'). mCurrentFence app < v"
      using ih(2) succ(2) by auto
    then show ?thesis
      using ih succ(2) by (simp add: Stamps_Cons(1) [OF Cons.prems(1) Inr] del: Stamps.simps)
  qed
qed

lemma length_Stamps:
  "Run inps app = Inr app' \<Longrightarrow> length (Stamps inps app) = length inps"
  by (induction inps arbitrary: app) (auto split: sum.splits)

lemma final_fences:
  assumes "LaidOut app" and "unat (mCurrentFence app) + length inps < 2 ^ 64"
    and "Run inps app = Inr app'" and "k < 3"
  shows "(k \<in> set (RetiredSlots inps app) \<longrightarrow> mCurrentFence app < Fence (mFrameResources app' ! k)) \<and>
         (k \<notin> set (RetiredSlots inps app) \<longrightarrow>
            Fence (mFrameResources app' ! k) = Fence (mFrameResources app ! k))"
  using assms(1,2,3)
proof (induction inps arbitrary: app)
  case Nil
  then show ?case by simp
next
  case (Cons inp inps)
  obtain a1 where frame: "Frame inp app = Inr a1" and rest: "Run inps a1 = Inr app'"
    using Cons.prems(3) by (auto split: sum.splits)
  have a1: "a1 = Drawn (Updated (PassConstants inp) app)"
    by (rule Frame_result [OF Cons.prems(1) frame])
  have laid1: "LaidOut a1" unfolding a1 by (rule Produced_fields(1) [OF Cons.prems(1)])
  have c1: "mCurrentFence a1 = mCurrentFence app + 1"
    unfolding a1 by (rule Produced_fields(4) [OF Cons.prems(1)])
  have room: "unat (mCurrentFence app) + 1 < 2 ^ 64" using Cons.prems(2) by simp
  note succ = fence_successor [OF room]
  have "unat (mCurrentFence a1) + length inps < 2 ^ 64"
    using Cons.prems(2) by (simp add: c1 succ(1))
  note ih = Cons.IH [OF laid1 this rest]
  have f1: "Fence (mFrameResources a1 ! k) =
      (if k = NextFrameResource app then mCurrentFence app + 1 else Fence (mFrameResources app ! k))"
    unfolding a1 by (rule Produced_fields(6) [OF Cons.prems(1) assms(4)])
  show ?case
    using ih f1 succ(2)
    by (auto simp: Stamps_Cons(2) [OF Cons.prems(1) frame] c1 simp del: RetiredSlots.simps)
qed

text \<open>
  Claim C7. Over a run of produced frames that does not exhaust the 64-bit fence counter,
  the fence values the \<^verbatim>\<open>Draw\<close> calls stamp on their frame resources are strictly
  increasing from frame to frame and none of them is 0; and when every \<^verbatim>\<open>Fence\<close> was 0 at
  the start, a frame resource's \<^verbatim>\<open>Fence\<close> is 0 after the run exactly if no frame of the run
  retired it.
\<close>

theorem fence_stamps_strictly_increase:
  assumes "LaidOut app" and "list_all (\<lambda>fr. Fence fr = 0) (mFrameResources app)"
    and "unat (mCurrentFence app) + length inps < 2 ^ 64"
    and "Run inps app = Inr app'"
  shows "length (Stamps inps app) = length inps \<and>
         sorted_wrt (<) (Stamps inps app) \<and>
         list_all (\<lambda>v. v \<noteq> 0) (Stamps inps app) \<and>
         (\<forall>k<3. Fence (mFrameResources app' ! k) = 0 \<longleftrightarrow> k \<notin> set (RetiredSlots inps app))"
proof -
  note inc = stamps_increasing [OF assms(1,3)]
  have nonzero: "list_all (\<lambda>v. v \<noteq> 0) (Stamps inps app)"
    using inc by (auto simp: list_all_iff)
  have zero: "Fence (mFrameResources app ! k) = 0" if "k < 3" for k
    using assms(2) that LaidOut_frames [OF assms(1)] by (simp add: list_all_length)
  have "Fence (mFrameResources app' ! k) = 0 \<longleftrightarrow> k \<notin> set (RetiredSlots inps app)"
    if "k < 3" for k
    using final_fences [OF assms(1,3,4) that] zero [OF that] by auto
  then show ?thesis
    using inc nonzero length_Stamps [OF assms(4)] by simp
qed

lemma Stamps_closed_form:
  assumes "LaidOut app" and "Run inps app = Inr app'"
  shows "Stamps inps app = map (\<lambda>j. mCurrentFence app + word_of_nat (Suc j)) [0..<length inps]"
  using assms
proof (induction inps arbitrary: app)
  case Nil
  then show ?case by simp
next
  case (Cons inp inps)
  obtain a1 where frame: "Frame inp app = Inr a1" and rest: "Run inps a1 = Inr app'"
    using Cons.prems(2) by (auto split: sum.splits)
  have a1: "a1 = Drawn (Updated (PassConstants inp) app)"
    by (rule Frame_result [OF Cons.prems(1) frame])
  have laid1: "LaidOut a1" unfolding a1 by (rule Produced_fields(1) [OF Cons.prems(1)])
  have c1: "mCurrentFence a1 = mCurrentFence app + 1"
    unfolding a1 by (rule Produced_fields(4) [OF Cons.prems(1)])
  have "[0..<Suc (length inps)] = 0 # [Suc 0..<Suc (length inps)]"
    by (rule upt_conv_Cons) simp
  then have "[0..<length (inp # inps)] = 0 # map Suc [0..<length inps]"
    by (simp only: length_Cons map_Suc_upt)
  then show ?case
    using Cons.IH [OF laid1 rest]
    by (simp add: Stamps_Cons(1) [OF Cons.prems(1) frame] c1 o_def add.assoc
             del: upt_Suc Stamps.simps)
qed

lemma Run_keeping_up:
  assumes "LaidOut app" and "list_all (\<lambda>inp. CompletedValue inp = - 1) inps"
  shows "\<exists>app'. Run inps app = Inr app'"
  using assms
proof (induction inps arbitrary: app)
  case Nil
  then show ?case by simp
next
  case (Cons inp inps)
  have "Frame inp app = Inr (Drawn (Updated (PassConstants inp) app))"
    using Cons.prems by (simp add: Frame_keeping_up)
  moreover have "LaidOut (Drawn (Updated (PassConstants inp) app))"
    by (rule Produced_fields(1) [OF Cons.prems(1)])
  ultimately show ?case using Cons.IH Cons.prems(2) by simp
qed

theorem fence_stamps_strictly_increase_witness:
  "\<exists>(app :: (int, nat) ShapesApp) app'.
     Initialize (\<lambda>l i. Identity4x4) (ShapesApp 0 0) = Inr app \<and>
     list_all (\<lambda>fr. Fence fr = 0) (mFrameResources app) \<and>
     Run (replicate 4 \<lparr> CompletedValue = - 1, FenceProgress = [], PassConstants = 10 \<rparr>) app
       = Inr app' \<and>
     Stamps (replicate 4 \<lparr> CompletedValue = - 1, FenceProgress = [], PassConstants = 10 \<rparr>) app
       = [1, 2, 3, 4] \<and>
     sorted_wrt (<) (Stamps (replicate 4 \<lparr> CompletedValue = - 1, FenceProgress = [], PassConstants = 10 \<rparr>) app) \<and>
     list_all (\<lambda>v. v \<noteq> 0)
       (Stamps (replicate 4 \<lparr> CompletedValue = - 1, FenceProgress = [], PassConstants = 10 \<rparr>) app)"
proof -
  let ?inps = "replicate 4 \<lparr> CompletedValue = - 1, FenceProgress = [], PassConstants = 10::nat \<rparr>"
  obtain app :: "(int, nat) ShapesApp"
    where init: "Initialize (\<lambda>l i. Identity4x4) (ShapesApp 0 0) = Inr app"
      and laid: "LaidOut app"
      and zero: "list_all (\<lambda>fr. Fence fr = 0) (mFrameResources app)"
      and c0: "mCurrentFence app = 0"
    using Initialize_ok [of "\<lambda>l i. Identity4x4 :: int XMFLOAT4X4" "0::nat" 0] by blast
  have "list_all (\<lambda>inp. CompletedValue inp = - 1) ?inps" by (simp add: list_all_length)
  then obtain app' where run: "Run ?inps app = Inr app'"
    using Run_keeping_up [OF laid] by blast
  have room: "unat (mCurrentFence app) + length ?inps < 2 ^ 64" by (simp add: c0)
  have "[0..<4] = [0, 1, 2, Suc 2]" by (simp add: upt_rec)
  then have stamps: "Stamps ?inps app = [1, 2, 3, 4]"
    using Stamps_closed_form [OF laid run] by (simp add: c0)
  show ?thesis
    using init zero run stamps fence_stamps_strictly_increase [OF laid zero room run]
    by blast
qed


lemma WaitForSingleObject_Some:
  "WaitForSingleObject fence vs = Some v \<Longrightarrow> fence \<le> v \<and> v \<in> set vs"
  by (induction vs) (auto split: if_splits)

lemma WaitForSingleObject_None:
  "WaitForSingleObject fence vs = None \<longleftrightarrow> (\<forall>v\<in>set vs. v < fence)"
  by (induction vs) (auto simp: not_le)

lemma Updated_other_slots:
  assumes "LaidOut app" and "j < 3" and "j \<noteq> NextFrameResource app"
  shows "mFrameResources (Updated pass app) ! j = mFrameResources app ! j"
  using assms LaidOut_frames [OF assms(1)] by (simp add: Updated_def Let_def)

text \<open>
  Claim C2. No premature reuse: on a laid-out state (every state the program reaches is
  one) \<^verbatim>\<open>Update\<close> enters the wait exactly when the frame resource it selects has a nonzero
  \<^verbatim>\<open>Fence\<close> that the fence's completed value has not reached. It then either never returns,
  which happens exactly when the fence never reaches that value, or returns after the fence
  has. At every state the thread passes through inside \<^verbatim>\<open>Update\<close>, the selected frame
  resource's \<^verbatim>\<open>Fence\<close> is 0 or at most the completed value the thread has seen by then, or
  else no frame resource and no render item has been written yet: the arenas are written
  only once the wait has resolved. A thread that waits forever sleeps in a state with every
  arena as \<^verbatim>\<open>Update\<close> found it. When \<^verbatim>\<open>Update\<close> returns, it has written the arenas of the
  selected frame resource and of no other.
\<close>

theorem no_premature_reuse:
  assumes "LaidOut app"
  shows "let k = NextFrameResource app; fr = mFrameResources app ! k;
             points = fst (Update_trace inp app) in
     (UpdateWaits inp app \<longleftrightarrow> Fence fr \<noteq> 0 \<and> CompletedValue inp < Fence fr) \<and>
     (Update inp app = Inl WaitNeverResolves \<or> (\<exists>app'. Update inp app = Inr app')) \<and>
     (Update inp app = Inl WaitNeverResolves \<longleftrightarrow>
        UpdateWaits inp app \<and> (\<forall>v\<in>set (FenceProgress inp). v < Fence fr)) \<and>
     points \<noteq> [] \<and> fst (hd points) = CompletedValue inp \<and>
     list_all (\<lambda>(c, s). mCurrFrameResource s = Some k \<and>
                 (Fence fr = 0 \<or> Fence fr \<le> c \<or>
                  mFrameResources s = mFrameResources app \<and> mAllRitems s = mAllRitems app))
       points \<and>
     (Update inp app = Inl WaitNeverResolves \<longrightarrow>
        fst (last points) = CompletedValue inp \<and>
        mFrameResources (snd (last points)) = mFrameResources app \<and>
        mAllRitems (snd (last points)) = mAllRitems app) \<and>
     (\<forall>app'. Update inp app = Inr app' \<longrightarrow>
        snd (last points) = app' \<and>
        (Fence fr = 0 \<or> Fence fr \<le> fst (last points)) \<and>
        mCurrFrameResource app' = Some k \<and>
        (Fence fr = 0 \<or> Fence fr \<le> CompletedValue inp \<or>
         (\<exists>v\<in>set (FenceProgress inp). Fence fr \<le> v)) \<and>
        (UpdateWaits inp app \<longrightarrow>
           (\<exists>v. WaitForSingleObject (Fence fr) (FenceProgress inp) = Some v \<and> Fence fr \<le> v \<and>
                map fst points = [CompletedValue inp, v, v])) \<and>
        (\<forall>j<3. j \<noteq> k \<longrightarrow> mFrameResources app' ! j = mFrameResources app ! j))"
proof -
  let ?k = "NextFrameResource app"
  let ?fr = "mFrameResources app ! ?k"
  let ?pts = "fst (Update_trace inp app)"
  let ?c = "CompletedValue inp"
  let ?sel = "app \<lparr> mCurrFrameResourceIndex := int ?k, mCurrFrameResource := Some ?k \<rparr>"
  let ?upd = "Updated (PassConstants inp) app"
  let ?ok = "\<lambda>(c, s). mCurrFrameResource s = Some ?k \<and>
                 (Fence ?fr = 0 \<or> Fence ?fr \<le> c \<or>
                  mFrameResources s = mFrameResources app \<and> mAllRitems s = mAllRitems app)"
  note upd = Update_LaidOut [OF assms, of inp]
  note tr = Update_trace_LaidOut [OF assms, of inp]
  have waits: "UpdateWaits inp app \<longleftrightarrow> Fence ?fr \<noteq> 0 \<and> CompletedValue inp < Fence ?fr"
    by (simp add: UpdateWaits_LaidOut [OF assms] FenceNotReached_def)
  have alt: "Update inp app = Inl WaitNeverResolves \<or> (\<exists>app'. Update inp app = Inr app')"
    by (simp add: upd)
  have hang: "Update inp app = Inl WaitNeverResolves \<longleftrightarrow>
      UpdateWaits inp app \<and> (\<forall>v\<in>set (FenceProgress inp). v < Fence ?fr)"
    by (simp add: upd UpdateWaits_LaidOut [OF assms] WaitForSingleObject_None)
  consider (nowait) "\<not> UpdateWaits inp app"
    | (never) "UpdateWaits inp app" "WaitForSingleObject (Fence ?fr) (FenceProgress inp) = None"
    | (resolved) v where "UpdateWaits inp app"
        "WaitForSingleObject (Fence ?fr) (FenceProgress inp) = Some v"
    by (cases "WaitForSingleObject (Fence ?fr) (FenceProgress inp)") auto
  then have shape:
    "(\<not> UpdateWaits inp app \<and> ?pts = [(?c, ?sel), (?c, ?upd)] \<and> Update inp app = Inr ?upd) \<or>
     (UpdateWaits inp app \<and> ?pts = [(?c, ?sel)] \<and> Update inp app = Inl WaitNeverResolves) \<or>
     (\<exists>v. UpdateWaits inp app \<and> WaitForSingleObject (Fence ?fr) (FenceProgress inp) = Some v \<and>
          Fence ?fr \<le> v \<and> ?pts = [(?c, ?sel), (v, ?sel), (v, ?upd)] \<and> Update inp app = Inr ?upd)"
  proof cases
    case nowait
    then show ?thesis
      by (simp add: tr upd UpdateWaits_LaidOut [OF assms])
  next
    case never
    then show ?thesis
      by (simp add: tr upd UpdateWaits_LaidOut [OF assms])
  next
    case resolved
    then show ?thesis
      using WaitForSingleObject_Some [OF resolved(2)]
      by (simp add: tr upd UpdateWaits_LaidOut [OF assms])
  qed
  have nonempty: "?pts \<noteq> [] \<and> fst (hd ?pts) = ?c"
    using shape by auto
  have safe_points: "list_all ?ok ?pts"
    using shape waits by (auto simp: not_less)
  have stuck: "fst (last ?pts) = ?c \<and>
        mFrameResources (snd (last ?pts)) = mFrameResources app \<and>
        mAllRitems (snd (last ?pts)) = mAllRitems app"
    if "Update inp app = Inl WaitNeverResolves"
    using shape that by auto
  have ret: "snd (last ?pts) = app' \<and>
        (Fence ?fr = 0 \<or> Fence ?fr \<le> fst (last ?pts)) \<and>
        mCurrFrameResource app' = Some ?k \<and>
        (Fence ?fr = 0 \<or> Fence ?fr \<le> CompletedValue inp \<or>
         (\<exists>v\<in>set (FenceProgress inp). Fence ?fr \<le> v)) \<and>
        (UpdateWaits inp app \<longrightarrow>
           (\<exists>v. WaitForSingleObject (Fence ?fr) (FenceProgress inp) = Some v \<and> Fence ?fr \<le> v \<and>
                map fst ?pts = [?c, v, v])) \<and>
        (\<forall>j<3. j \<noteq> ?k \<longrightarrow> mFrameResources app' ! j = mFrameResources app ! j)"
    if r: "Update inp app = Inr app'" for app'
  proof -
    have app': "app' = ?upd"
      using r by (simp add: upd split: if_splits)
    have last: "snd (last ?pts) = ?upd" using shape r by auto
    have reached: "Fence ?fr = 0 \<or> Fence ?fr \<le> fst (last ?pts)"
      using shape r waits by (auto simp: not_less)
    have resolved: "\<exists>v. WaitForSingleObject (Fence ?fr) (FenceProgress inp) = Some v \<and>
        Fence ?fr \<le> v \<and> map fst ?pts = [?c, v, v]"
      if "UpdateWaits inp app"
      using shape r that by auto
    have safe: "Fence ?fr = 0 \<or> Fence ?fr \<le> CompletedValue inp \<or>
         (\<exists>v\<in>set (FenceProgress inp). Fence ?fr \<le> v)"
    proof (cases "UpdateWaits inp app")
      case True
      then show ?thesis using resolved WaitForSingleObject_Some by blast
    next
      case False
      then show ?thesis using waits by (auto simp: not_less)
    qed
    show ?thesis
      using last reached safe resolved Updated_other_slots [OF assms]
      by (simp add: app')
  qed
  show ?thesis
    unfolding Let_def using waits alt hang nonempty safe_points stuck ret by blast
qed

lemma priming_run:
  assumes "LaidOut app" and "list_all (\<lambda>fr. Fence fr = 0) (mFrameResources app)"
  shows "Run [in1, in2, in3] app =
         Inr (Drawn (Updated (PassConstants in3)
               (Drawn (Updated (PassConstants in2) (Drawn (Updated (PassConstants in1) app))))))"
proof -
  note p = priming [OF assms]
  have "Frame in1 app = Inr (Drawn (Updated (PassConstants in1) app))"
    using Frame_no_wait [OF assms(1), of in1] p(1) by (simp add: FenceNotReached_def)
  moreover have "Frame in2 (Drawn (Updated (PassConstants in1) app)) =
      Inr (Drawn (Updated (PassConstants in2) (Drawn (Updated (PassConstants in1) app))))"
    using Frame_no_wait [OF p(4), of in2] p(2) by (simp add: FenceNotReached_def)
  moreover have "Frame in3 (Drawn (Updated (PassConstants in2) (Drawn (Updated (PassConstants in1) app)))) =
      Inr (Drawn (Updated (PassConstants in3)
            (Drawn (Updated (PassConstants in2) (Drawn (Updated (PassConstants in1) app))))))"
    using Frame_no_wait [OF p(5), of in3] p(3) by (simp add: FenceNotReached_def)
  ultimately show ?thesis by simp
qed

lemma fourth_frame_marker:
  fixes app :: "('a, 'p) ShapesApp" and pa pb pc :: 'p
  assumes laid: "LaidOut app"
  defines "a3 \<equiv> Drawn (Updated pc (Drawn (Updated pb (Drawn (Updated pa app)))))"
  shows "LaidOut a3" and "NextFrameResource a3 = NextFrameResource app"
    and "Fence (mFrameResources a3 ! NextFrameResource a3) = mCurrentFence app + 1"
proof -
  let ?n = "NextFrameResource app"
  let ?a1 = "Drawn (Updated pa app)"
  let ?a2 = "Drawn (Updated pb ?a1)"
  have n: "?n < 3" by (rule LaidOut_next [OF laid])
  have laid1: "LaidOut ?a1" by (rule Produced_fields(1) [OF laid])
  have laid2: "LaidOut ?a2" by (rule Produced_fields(1) [OF laid1])
  show "LaidOut a3" unfolding a3_def by (rule Produced_fields(1) [OF laid2])
  have n1: "NextFrameResource ?a1 = (?n + 1) mod 3" by (rule NextFrameResource_Produced [OF laid])
  have n2: "NextFrameResource ?a2 = ((?n + 1) mod 3 + 1) mod 3"
    using NextFrameResource_Produced [OF laid1] n1 by simp
  have cyc: "(((?n + 1) mod 3 + 1) mod 3 + 1) mod 3 = ?n" using n by presburger
  show n3: "NextFrameResource a3 = ?n"
    unfolding a3_def using NextFrameResource_Produced [OF laid2] n2 cyc by simp
  have "Fence (mFrameResources ?a1 ! ?n) = mCurrentFence app + 1"
    using Produced_fields(6) [OF laid n] by simp
  moreover have "Fence (mFrameResources ?a2 ! ?n) = Fence (mFrameResources ?a1 ! ?n)"
    using Produced_fields(6) [OF laid1 n] next_slot_differs(1) [OF n] by (simp add: n1)
  moreover have "Fence (mFrameResources a3 ! ?n) = Fence (mFrameResources ?a2 ! ?n)"
    unfolding a3_def
    using Produced_fields(6) [OF laid2 n] next_slot_differs(2) [OF n] by (simp add: n2)
  ultimately show "Fence (mFrameResources a3 ! NextFrameResource a3) = mCurrentFence app + 1"
    by (simp add: n3)
qed

lemma PassCB_Produced:
  fixes app :: "('a, 'p) ShapesApp"
  assumes "LaidOut app" and "k < 3"
  shows "PassCB (mFrameResources (Drawn (Updated pass app)) ! k) =
           (if k = NextFrameResource app then [Some pass]
            else PassCB (mFrameResources app ! k))"
proof -
  have n: "NextFrameResource app < 3" by (rule LaidOut_next [OF assms(1)])
  have len: "length (mFrameResources app) = 3" by (rule LaidOut_frames [OF assms(1)])
  obtain x where x: "PassCB (mFrameResources app ! NextFrameResource app) = [x]"
    using LaidOut_arena [OF assms(1) n] by (auto simp: length_Suc_conv)
  show ?thesis
    using assms(2) n len x by (simp add: Drawn_def Updated_def Let_def nth_list_update)
qed

lemma PassCB_Updated:
  fixes app :: "('a, 'p) ShapesApp"
  assumes "LaidOut app"
  shows "PassCB (mFrameResources (Updated pass app) ! NextFrameResource app) = [Some pass]"
proof -
  have n: "NextFrameResource app < 3" by (rule LaidOut_next [OF assms(1)])
  have len: "length (mFrameResources app) = 3" by (rule LaidOut_frames [OF assms(1)])
  obtain x where x: "PassCB (mFrameResources app ! NextFrameResource app) = [x]"
    using LaidOut_arena [OF assms(1) n] by (auto simp: length_Suc_conv)
  show ?thesis
    using n len x by (simp add: Updated_def Let_def)
qed

lemma fourth_frame_pass:
  fixes app :: "('a, 'p) ShapesApp" and pa pb pc :: 'p
  assumes laid: "LaidOut app"
  defines "a3 \<equiv> Drawn (Updated pc (Drawn (Updated pb (Drawn (Updated pa app)))))"
  shows "PassCB (mFrameResources a3 ! NextFrameResource app) = [Some pa]"
proof -
  let ?n = "NextFrameResource app"
  let ?a1 = "Drawn (Updated pa app)"
  let ?a2 = "Drawn (Updated pb ?a1)"
  have n: "?n < 3" by (rule LaidOut_next [OF laid])
  have laid1: "LaidOut ?a1" by (rule Produced_fields(1) [OF laid])
  have laid2: "LaidOut ?a2" by (rule Produced_fields(1) [OF laid1])
  have n1: "NextFrameResource ?a1 = (?n + 1) mod 3" by (rule NextFrameResource_Produced [OF laid])
  have n2: "NextFrameResource ?a2 = ((?n + 1) mod 3 + 1) mod 3"
    using NextFrameResource_Produced [OF laid1] n1 by simp
  have "PassCB (mFrameResources ?a1 ! ?n) = [Some pa]"
    using PassCB_Produced [OF laid n] by simp
  moreover have "PassCB (mFrameResources ?a2 ! ?n) = PassCB (mFrameResources ?a1 ! ?n)"
    using PassCB_Produced [OF laid1 n] next_slot_differs(1) [OF n] by (simp add: n1)
  moreover have "PassCB (mFrameResources a3 ! ?n) = PassCB (mFrameResources ?a2 ! ?n)"
    unfolding a3_def
    using PassCB_Produced [OF laid2 n] next_slot_differs(2) [OF n] by (simp add: n2)
  ultimately show ?thesis by simp
qed

theorem no_premature_reuse_witness:
  "\<exists>(app :: (int, nat) ShapesApp) a3 a4.
     Initialize (\<lambda>l i. Identity4x4) (ShapesApp 0 0) = Inr app \<and>
     Run [\<lparr> CompletedValue = 0, FenceProgress = [], PassConstants = 10 \<rparr>,
          \<lparr> CompletedValue = 0, FenceProgress = [], PassConstants = 20 \<rparr>,
          \<lparr> CompletedValue = 0, FenceProgress = [], PassConstants = 30 \<rparr>] app = Inr a3 \<and>
     LaidOut a3 \<and>
     Fence (mFrameResources a3 ! NextFrameResource a3) = 1 \<and>
     UpdateWaits \<lparr> CompletedValue = 0, FenceProgress = [0, 1], PassConstants = 40 \<rparr> a3 \<and>
     Update \<lparr> CompletedValue = 0, FenceProgress = [0, 1], PassConstants = 40 \<rparr> a3 = Inr a4 \<and>
     map (\<lambda>(c, s). (c, PassCB (mFrameResources s ! NextFrameResource a3)))
       (fst (Update_trace \<lparr> CompletedValue = 0, FenceProgress = [0, 1], PassConstants = 40 \<rparr> a3))
       = [(0, [Some 10]), (1, [Some 10]), (1, [Some 40])] \<and>
     Update \<lparr> CompletedValue = 0, FenceProgress = [0], PassConstants = 40 \<rparr> a3
       = Inl WaitNeverResolves \<and>
     map (\<lambda>(c, s). (c, PassCB (mFrameResources s ! NextFrameResource a3)))
       (fst (Update_trace \<lparr> CompletedValue = 0, FenceProgress = [0], PassConstants = 40 \<rparr> a3))
       = [(0, [Some 10])] \<and>
     \<not> UpdateWaits \<lparr> CompletedValue = 1, FenceProgress = [], PassConstants = 40 \<rparr> a3"
proof -
  let ?in1 = "\<lparr> CompletedValue = 0, FenceProgress = [], PassConstants = 10::nat \<rparr>"
  let ?in2 = "\<lparr> CompletedValue = 0, FenceProgress = [], PassConstants = 20::nat \<rparr>"
  let ?in3 = "\<lparr> CompletedValue = 0, FenceProgress = [], PassConstants = 30::nat \<rparr>"
  let ?late = "\<lparr> CompletedValue = 0, FenceProgress = [0, 1], PassConstants = 40::nat \<rparr>"
  let ?never = "\<lparr> CompletedValue = 0, FenceProgress = [0], PassConstants = 40::nat \<rparr>"
  let ?done = "\<lparr> CompletedValue = 1, FenceProgress = [], PassConstants = 40::nat \<rparr>"
  obtain app :: "(int, nat) ShapesApp"
    where init: "Initialize (\<lambda>l i. Identity4x4) (ShapesApp 0 0) = Inr app"
      and laid: "LaidOut app"
      and zero: "list_all (\<lambda>fr. Fence fr = 0) (mFrameResources app)"
      and c0: "mCurrentFence app = 0"
    using Initialize_ok [of "\<lambda>l i. Identity4x4 :: int XMFLOAT4X4" "0::nat" 0] by blast
  let ?a3 = "Drawn (Updated 30 (Drawn (Updated 20 (Drawn (Updated 10 app)))))"
  let ?n = "NextFrameResource ?a3"
  have run: "Run [?in1, ?in2, ?in3] app = Inr ?a3"
    using priming_run [OF laid zero, of ?in1 ?in2 ?in3] by simp
  note m = fourth_frame_marker [OF laid, where pa = 10 and pb = 20 and pc = 30]
  have fence: "Fence (mFrameResources ?a3 ! ?n) = 1"
    using m(3) by (simp add: c0)
  have old: "PassCB (mFrameResources ?a3 ! ?n) = [Some 10]"
    using fourth_frame_pass [OF laid, where pa = 10 and pb = 20 and pc = 30] by (simp add: m(2))
  have new: "PassCB (mFrameResources (Updated 40 ?a3) ! ?n) = [Some 40]"
    by (rule PassCB_Updated [OF m(1)])
  note thm_late = no_premature_reuse [OF m(1), of ?late]
  note thm_never = no_premature_reuse [OF m(1), of ?never]
  note thm_done = no_premature_reuse [OF m(1), of ?done]
  have w: "UpdateWaits ?late ?a3" using thm_late fence by (simp add: Let_def)
  have "Update ?late ?a3 \<noteq> Inl WaitNeverResolves"
    using thm_late fence by (simp add: Let_def)
  then obtain a4 where ok: "Update ?late ?a3 = Inr a4"
    using thm_late by (auto simp: Let_def)
  have tr_late: "map (\<lambda>(c, s). (c, PassCB (mFrameResources s ! ?n))) (fst (Update_trace ?late ?a3))
      = [(0, [Some 10]), (1, [Some 10]), (1, [Some 40])]"
    using fence old new
    by (simp add: Update_trace_LaidOut [OF m(1)] FenceNotReached_def)
  have never: "Update ?never ?a3 = Inl WaitNeverResolves"
    using thm_never fence by (simp add: Let_def)
  have tr_never: "map (\<lambda>(c, s). (c, PassCB (mFrameResources s ! ?n))) (fst (Update_trace ?never ?a3))
      = [(0, [Some 10])]"
    using fence old
    by (simp add: Update_trace_LaidOut [OF m(1)] FenceNotReached_def)
  have nowait: "\<not> UpdateWaits ?done ?a3" using thm_done fence by (simp add: Let_def)
  show ?thesis
    apply (rule exI [of _ app], rule exI [of _ ?a3], rule exI [of _ a4])
    apply (intro conjI)
    apply (fact init run m(1) fence w ok tr_late never tr_never nowait)+
    done
qed

section \<open>Bound descriptors are the published ones\<close>

lemma LaidOut_slot:
  assumes "LaidOut app" and "i < length (mAllRitems app)"
  shows "ObjCBIndex (mAllRitems app ! i) = word_of_nat i"
proof -
  have "map ObjCBIndex (mAllRitems app) ! i = map word_of_nat [0..<length (mAllRitems app)] ! i"
    using assms(1) by (simp add: LaidOut_def)
  then show ?thesis using assms(2) by simp
qed

lemma frame_loop_keeps_heap:
  "mCbvHeap (Updated pass app) = mCbvHeap app"
  "mPassCbvOffset (Updated pass app) = mPassCbvOffset app"
  "mOpaqueRitems (Updated pass app) = mOpaqueRitems app"
  "mCbvHeap (Drawn app) = mCbvHeap app"
  "mPassCbvOffset (Drawn app) = mPassCbvOffset app"
  "mOpaqueRitems (Drawn app) = mOpaqueRitems app"
  by (simp_all add: Updated_def Drawn_def Let_def)

lemma reachable_heap:
  assumes "reachable app"
  shows "length (mOpaqueRitems app) = 153 \<and>
         mPassCbvOffset app = 153 * word_of_int gNumFrameResources \<and>
         mCbvHeap app =
           publishedHeap 153 (153 * word_of_int gNumFrameResources) (replicate 462 None)"
  using assms
proof (induction rule: reachable.induct)
  case (init W pass0 fence0 app)
  then show ?case using Initialize_ok [of W pass0 fence0] by auto
next
  case (update app inp app')
  have "LaidOut app" using update.hyps(1) by (rule reachable_LaidOut)
  then have "app' = Updated (PassConstants inp) app"
    using update.hyps(2) by (auto simp: Update_LaidOut split: if_splits)
  then show ?case using update.IH by (simp add: frame_loop_keeps_heap)
next
  case (draw app app')
  have laid: "LaidOut app" using draw.hyps(1) by (rule reachable_LaidOut)
  have "app' = Drawn app"
    using draw.hyps(2) laid
    by (cases "mCurrFrameResource app = None") (auto simp: Draw_null Draw_LaidOut)
  then show ?case using draw.IH by (simp add: frame_loop_keeps_heap)
qed

lemma BoundDescriptors_items:
  "BoundDescriptors (concat (map (\<lambda>p. [SetGraphicsRootDescriptorTable r (g p),
                                        DrawIndexedInstanced (h p)]) ps)) =
   map (\<lambda>p. (r, g p)) ps"
  by (induction ps) simp_all

lemma map_positions: "map (\<lambda>p. f (xs ! p)) [0..<length xs] = map f xs"
  by (rule nth_equalityI) simp_all

lemma BoundDescriptors_DrawCommands:
  assumes "LaidOut app"
  shows "BoundDescriptors (DrawCommands app) =
     (1, passCbvIndex (mPassCbvOffset app) (mCurrFrameResourceIndex app)) #
     map (\<lambda>ri. (0, sint (cbvIndex (mCurrFrameResourceIndex app)
                          (word_of_nat (length (mOpaqueRitems app))) (ObjCBIndex ri))))
       (mAllRitems app)"
proof -
  have opaque: "mOpaqueRitems app = [0..<length (mAllRitems app)]"
    using assms by (simp add: LaidOut_def)
  show ?thesis
    unfolding DrawCommands_def BoundDescriptors.simps BoundDescriptors_items opaque
    by (simp add: map_positions
          [of "\<lambda>ri. (0::nat, sint (cbvIndex (mCurrFrameResourceIndex app)
                                    (word_of_nat (length (mAllRitems app))) (ObjCBIndex ri)))"
              "mAllRitems app"])
qed

lemma published_descriptors:
  fixes app :: "('a, 'p) ShapesApp"
  assumes laid: "LaidOut app" and opaque: "length (mOpaqueRitems app) = 153"
    and off: "mPassCbvOffset app = 153 * word_of_int gNumFrameResources"
    and heap: "mCbvHeap app =
          publishedHeap 153 (153 * word_of_int gNumFrameResources) (replicate 462 None)"
    and f: "f < 3"
  shows "DescriptorAt (mCbvHeap app) (passHeapIndex (mPassCbvOffset app) (int f))
           = Some (CBV f PassRecord 0)"
    and "ri \<in> set (mAllRitems app) \<Longrightarrow>
         DescriptorAt (mCbvHeap app)
           (objHeapIndex (int f) (word_of_nat (length (mOpaqueRitems app))) (ObjCBIndex ri))
           = Some (CBV f ObjectRecord (ObjCBIndex ri))"
proof -
  have len: "length (mAllRitems app) = 153"
    using laid opaque by (simp add: LaidOut_def)
  have u153: "unat (153 :: UINT) = 153" by simp
  have fits: "3 * (unat (153 :: UINT) + 1) \<le> 2147483648" by simp
  have h462: "length (replicate 462 (None :: CBV option)) = 3 * (unat (153 :: UINT) + 1)" by simp
  have hlen: "length (mCbvHeap app) = 462" by (simp add: heap publishedHeap_def)
  have f0: "0 \<le> int f" "int f < 3" using f by simp_all
  show "DescriptorAt (mCbvHeap app) (passHeapIndex (mPassCbvOffset app) (int f))
           = Some (CBV f PassRecord 0)"
  proof -
    have eq: "passHeapIndex (153 * word_of_int gNumFrameResources) (int f) = 3 * uint (153 :: UINT) + int f"
      by (rule passHeapIndex_no_wrap [OF f0 fits])
    have n: "nat (passHeapIndex (153 * word_of_int gNumFrameResources) (int f)) =
          3 * unat (153 :: UINT) + f"
      by (rule passHeapIndex_slot [OF f fits])
    have inside: "0 \<le> passHeapIndex (153 * word_of_int gNumFrameResources) (int f) \<and>
        nat (passHeapIndex (153 * word_of_int gNumFrameResources) (int f)) < 462"
      using f unfolding n unfolding eq by simp
    show ?thesis
      using publishedHeap_pass [OF fits h462 f] inside n
      by (simp add: DescriptorAt_def off hlen) (simp add: heap)
  qed
  show "DescriptorAt (mCbvHeap app)
           (objHeapIndex (int f) (word_of_nat (length (mOpaqueRitems app))) (ObjCBIndex ri))
           = Some (CBV f ObjectRecord (ObjCBIndex ri))"
    if mem: "ri \<in> set (mAllRitems app)"
  proof -
    obtain i where i: "i < 153" and ri: "ri = mAllRitems app ! i"
      using mem len by (auto simp: in_set_conv_nth)
    have slot: "ObjCBIndex ri = word_of_nat i"
      using LaidOut_slot [OF laid] i len ri by simp
    have i': "i < unat (153 :: UINT)" using i by simp
    have n: "nat (objHeapIndex (int f) 153 (word_of_nat i)) = f * unat (153 :: UINT) + i"
      by (rule objHeapIndex_slot [OF f i' fits])
    have inside: "0 \<le> objHeapIndex (int f) 153 (word_of_nat i) \<and>
         nat (objHeapIndex (int f) 153 (word_of_nat i)) < 3 * (unat (153 :: UINT) + 1)"
      by (rule objHeapIndex_in_heap [OF f0 slot_word_less [OF i'] fits])
    show ?thesis
      using publishedHeap_object [OF fits h462 f i'] inside n
      by (simp add: DescriptorAt_def slot opaque hlen) (simp add: heap)
  qed
qed

text \<open>
  Claim C4. The offset computed when a view is published (\<^verbatim>\<open>heapIndex\<close> in
  \<^verbatim>\<open>BuildConstantBufferViews\<close>, for an object record and for the pass record) is the offset
  computed when it is bound (\<^verbatim>\<open>cbvIndex\<close> in \<^verbatim>\<open>DrawRenderItems\<close>, read as the \<^verbatim>\<open>INT\<close> that
  \<^verbatim>\<open>Offset\<close> takes, and \<^verbatim>\<open>passCbvIndex\<close> in \<^verbatim>\<open>Draw\<close>), for every frame index, item
  count and slot. On the program itself: in every state it reaches with a current frame
  resource, \<^verbatim>\<open>Draw\<close> returns, and the command list it records binds, in order, the pass
  descriptor and one descriptor per render item at exactly the offsets the publishing
  formulas give for the current frame resource; the heap holds at these offsets the views
  published for that frame resource's pass arena and for its object arena at each item's
  \<^verbatim>\<open>ObjCBIndex\<close>.
\<close>

theorem publish_and_bind_offsets_agree:
  fixes app :: "('a::{zero,one}, 'p) ShapesApp"
  assumes "reachable app" and "mCurrFrameResource app = Some k"
  shows "objHeapIndex frameIndex objCount slot = sint (cbvIndex frameIndex objCount slot) \<and>
         passHeapIndex passCbvOffset frameIndex = passCbvIndex passCbvOffset frameIndex \<and>
         (\<exists>app'. Draw app = Inr app' \<and>
            BoundDescriptors (mCommandList app') =
              (1, passHeapIndex (mPassCbvOffset app) (int k)) #
              map (\<lambda>ri. (0, objHeapIndex (int k) (word_of_nat (length (mOpaqueRitems app)))
                                (ObjCBIndex ri)))
                (mAllRitems app) \<and>
            map (\<lambda>(root, offset). DescriptorAt (mCbvHeap app') offset)
                (BoundDescriptors (mCommandList app')) =
              Some (CBV k PassRecord 0) #
              map (\<lambda>ri. Some (CBV k ObjectRecord (ObjCBIndex ri))) (mAllRitems app))"
proof -
  have formulas: "objHeapIndex f n s = sint (cbvIndex f n s)"
    "passHeapIndex off f = passCbvIndex off f" for f n s off
    by (simp_all add: objHeapIndex_def cbvIndex_def passHeapIndex_def passCbvIndex_def)
  have laid: "LaidOut app" by (rule reachable_LaidOut [OF assms(1)])
  note h = reachable_heap [OF assms(1)]
  have idx: "mCurrFrameResourceIndex app = int k" and k: "k < 3"
    using laid assms(2) by (auto simp: LaidOut_def gNumFrameResources_def)
  have draw: "Draw app = Inr (Drawn app)"
    using Draw_LaidOut [OF laid] assms(2) by simp
  have cmds: "mCommandList (Drawn app) = DrawCommands app"
    and heap: "mCbvHeap (Drawn app) = mCbvHeap app"
    by (simp_all add: Drawn_def Let_def)
  have bound: "BoundDescriptors (DrawCommands app) =
      (1, passHeapIndex (mPassCbvOffset app) (int k)) #
      map (\<lambda>ri. (0, objHeapIndex (int k) (word_of_nat (length (mOpaqueRitems app))) (ObjCBIndex ri)))
        (mAllRitems app)"
    by (simp only: BoundDescriptors_DrawCommands [OF laid] idx formulas)
  note pub = published_descriptors [OF laid _ _ _ k]
  have views: "map (\<lambda>(root, offset). DescriptorAt (mCbvHeap app) offset)
                (BoundDescriptors (DrawCommands app)) =
              Some (CBV k PassRecord 0) #
              map (\<lambda>ri. Some (CBV k ObjectRecord (ObjCBIndex ri))) (mAllRitems app)"
    using h pub by (simp add: bound)
  show ?thesis
    using formulas bound views by (simp add: draw cmds heap)
qed

theorem publish_and_bind_offsets_agree_witness:
  "\<exists>(app :: (int, nat) ShapesApp) app1 app2.
     Initialize (\<lambda>l i. Identity4x4) (ShapesApp 0 0) = Inr app \<and>
     Update \<lparr> CompletedValue = 0, FenceProgress = [], PassConstants = 10 \<rparr> app = Inr app1 \<and>
     mCurrFrameResource app1 = Some 1 \<and>
     Draw app1 = Inr app2 \<and>
     BoundDescriptors (mCommandList app2) ! 0 = (1, 460) \<and>
     BoundDescriptors (mCommandList app2) ! 1 = (0, 153) \<and>
     length (BoundDescriptors (mCommandList app2)) = 154 \<and>
     map (\<lambda>(root, offset). DescriptorAt (mCbvHeap app2) offset)
         (BoundDescriptors (mCommandList app2)) =
       Some (CBV 1 PassRecord 0) #
       map (\<lambda>ri. Some (CBV 1 ObjectRecord (ObjCBIndex ri))) (mAllRitems app1)"
proof -
  let ?in1 = "\<lparr> CompletedValue = 0, FenceProgress = [], PassConstants = 10::nat \<rparr>"
  obtain app :: "(int, nat) ShapesApp"
    where init: "Initialize (\<lambda>l i. Identity4x4) (ShapesApp 0 0) = Inr app"
      and laid: "LaidOut app"
      and len: "length (mAllRitems app) = 153"
      and zero: "list_all (\<lambda>fr. Fence fr = 0) (mFrameResources app)"
      and idx0: "mCurrFrameResourceIndex app = 0"
    using Initialize_ok [of "\<lambda>l i. Identity4x4 :: int XMFLOAT4X4" "0::nat" 0] by blast
  let ?a1 = "Updated 10 app"
  have next1: "NextFrameResource app = 1"
    using NextFrameResource_eq [of app] by (simp add: idx0)
  have "Fence (mFrameResources app ! NextFrameResource app) = 0"
    by (rule priming(1) [OF laid zero])
  then have upd: "Update ?in1 app = Inr ?a1"
    by (simp add: Update_LaidOut [OF laid] FenceNotReached_def)
  have reach: "reachable ?a1"
    by (rule reachable.update [OF reachable.init [OF init] upd])
  have cur: "mCurrFrameResource ?a1 = Some 1" by (simp add: next1)
  have laid1: "LaidOut ?a1" by (rule LaidOut_Updated [OF laid])
  have len1: "length (mAllRitems ?a1) = 153" by (simp add: len)
  have slot0: "ObjCBIndex (mAllRitems app ! 0) = 0"
    using LaidOut_slot [OF laid, of 0] len by simp
  note h = reachable_heap [OF reach]
  obtain app2 where draw: "Draw ?a1 = Inr app2"
    and bound: "BoundDescriptors (mCommandList app2) =
        (1, passHeapIndex (mPassCbvOffset ?a1) (int 1)) #
        map (\<lambda>ri. (0, objHeapIndex (int 1) (word_of_nat (length (mOpaqueRitems ?a1))) (ObjCBIndex ri)))
          (mAllRitems ?a1)"
    and views: "map (\<lambda>(root, offset). DescriptorAt (mCbvHeap app2) offset)
         (BoundDescriptors (mCommandList app2)) =
       Some (CBV 1 PassRecord 0) #
       map (\<lambda>ri. Some (CBV 1 ObjectRecord (ObjCBIndex ri))) (mAllRitems ?a1)"
    using publish_and_bind_offsets_agree [OF reach cur, THEN conjunct2, THEN conjunct2]
    by (elim exE conjE)
  have b0: "BoundDescriptors (mCommandList app2) ! 0 = (1, 460)"
    using h by (simp add: bound passHeapIndex_def gNumFrameResources_def)
  have b1: "BoundDescriptors (mCommandList app2) ! 1 = (0, 153)"
    using h len slot0 by (simp add: bound objHeapIndex_def)
  have blen: "length (BoundDescriptors (mCommandList app2)) = 154"
    using len by (simp add: bound)
  show ?thesis
    apply (rule exI [of _ app], rule exI [of _ ?a1], rule exI [of _ app2])
    apply (intro conjI)
    apply (fact init upd cur draw b0 b1 blen views)+
    done
qed

end
